theory Spec2Isabelle
  imports Complex_Main
begin

section \<open>Python values\<close>

text \<open>
  A Python \<^verbatim>\<open>str\<close> is a sequence of Unicode code points, so a string is a list of
  natural numbers (the code points). \<open>asc\<close> writes an ASCII literal.
\<close>

type_synonym ustr = "nat list"

definition asc :: "string \<Rightarrow> ustr" where
  "asc s = map of_char s"

datatype py_error = ValueError | OtherError

text \<open>
  A Python \<^verbatim>\<open>float\<close> is a double. A finite double is a real number, and what an
  arithmetic operation, a function of the \<^verbatim>\<open>math\<close> module, a literal or a conversion
  gives is the exact result, rounded. The rounding is a parameter \<open>fl\<close> of every
  function that computes with floats: IEEE 754 round-to-nearest is one such function,
  and \<open>exact\<close>, which rounds nothing, is arithmetic on the reals. Infinities and NaN are
  not values of the model (no operation below is applied where a finite argument could
  give one, overflow apart).
\<close>

type_synonym rounding = "real \<Rightarrow> real"

definition exact :: rounding where
  "exact x = x"

text \<open>\<^verbatim>\<open>needle in haystack\<close> on two strings: the needle occurs as a contiguous run.\<close>

definition starts_with :: "ustr \<Rightarrow> ustr \<Rightarrow> bool" where
  "starts_with p s \<longleftrightarrow> take (length p) s = p"

fun str_in :: "ustr \<Rightarrow> ustr \<Rightarrow> bool" where
  "str_in k [] = (k = [])"
| "str_in k (c # cs) = (starts_with k (c # cs) \<or> str_in k cs)"

section \<open>tag\_districts.py: the registries\<close>

text \<open>
  The district names, as code points: the districts Banqiao, Zhonghe, Yonghe, Tucheng and
  Xinzhuang of New Taipei (Xinbei) and Songshan, Zhongshan and Wenshan of Taipei.
\<close>

definition banqiao :: ustr where
  "banqiao = [0x65B0, 0x5317, 0x5E02, 0x677F, 0x6A4B, 0x5340]"

definition zhonghe :: ustr where
  "zhonghe = [0x65B0, 0x5317, 0x5E02, 0x4E2D, 0x548C, 0x5340]"

definition yonghe :: ustr where
  "yonghe = [0x65B0, 0x5317, 0x5E02, 0x6C38, 0x548C, 0x5340]"

definition tucheng :: ustr where
  "tucheng = [0x65B0, 0x5317, 0x5E02, 0x571F, 0x57CE, 0x5340]"

definition xinzhuang :: ustr where
  "xinzhuang = [0x65B0, 0x5317, 0x5E02, 0x65B0, 0x838A, 0x5340]"

definition songshan :: ustr where
  "songshan = [0x53F0, 0x5317, 0x5E02, 0x677E, 0x5C71, 0x5340]"

definition zhongshan :: ustr where
  "zhongshan = [0x53F0, 0x5317, 0x5E02, 0x4E2D, 0x5C71, 0x5340]"

definition wenshan :: ustr where
  "wenshan = [0x53F0, 0x5317, 0x5E02, 0x6587, 0x5C71, 0x5340]"

text \<open>The label of a record that no rule resolves (\<^verbatim>\<open>U+5F85 U+78BA U+8A8D\<close>, "to be confirmed").\<close>

definition unresolved :: ustr where
  "unresolved = [0x5F85, 0x78BA, 0x8A8D]"

text \<open>
  \<^verbatim>\<open>class Centroid\<close>, a frozen dataclass with the fields \<^verbatim>\<open>name\<close>, \<^verbatim>\<open>lat\<close> and
  \<^verbatim>\<open>lon\<close> (prefixed here, since the functions below have parameters of these names).
\<close>

record centroid =
  c_name :: ustr
  c_lat :: real
  c_lon :: real

text \<open>The centroid tuple, in the order of the source; each literal is a double.\<close>

definition CENTROIDS :: "rounding \<Rightarrow> centroid list" where
  "CENTROIDS fl =
     [\<lparr>c_name = banqiao, c_lat = fl 25.0112, c_lon = fl 121.4637\<rparr>,
      \<lparr>c_name = zhonghe, c_lat = fl 24.9990, c_lon = fl 121.4870\<rparr>,
      \<lparr>c_name = yonghe, c_lat = fl 25.0090, c_lon = fl 121.5150\<rparr>,
      \<lparr>c_name = tucheng, c_lat = fl 24.9730, c_lon = fl 121.4440\<rparr>,
      \<lparr>c_name = xinzhuang, c_lat = fl 25.0370, c_lon = fl 121.4510\<rparr>,
      \<lparr>c_name = songshan, c_lat = fl 25.0520, c_lon = fl 121.5560\<rparr>,
      \<lparr>c_name = zhongshan, c_lat = fl 25.0620, c_lon = fl 121.5330\<rparr>,
      \<lparr>c_name = wenshan, c_lat = fl 24.9950, c_lon = fl 121.5540\<rparr>]"

text \<open>The dictionaries are association lists in insertion order, the order in which
  \<^verbatim>\<open>.items()\<close> yields them. No literal repeats a key. The keywords are Banqiao, Zhonghe
  and Yonghe (two characters each).\<close>

definition DISTRICT_KEYWORDS :: "(ustr \<times> ustr) list" where
  "DISTRICT_KEYWORDS =
     [([0x677F, 0x6A4B], banqiao),
      ([0x4E2D, 0x548C], zhonghe),
      ([0x6C38, 0x548C], yonghe)]"

text \<open>The road table, 48 entries.\<close>

definition ROAD_TO_DISTRICT :: "(ustr \<times> ustr) list" where
  "ROAD_TO_DISTRICT =
     [([0x65B0, 0x6D77, 0x8DEF], banqiao),
      ([0x4E2D, 0x6B63, 0x8DEF], banqiao),
      ([0x82F1, 0x58EB, 0x8DEF], banqiao),
      ([0x6C11, 0x751F, 0x8DEF, 0x4E8C, 0x6BB5], banqiao),
      ([0x6C11, 0x751F, 0x8DEF, 0x4E00, 0x6BB5], banqiao),
      ([0x6C11, 0x751F, 0x8DEF], banqiao),
      ([0x6587, 0x5316, 0x8DEF, 0x4E00, 0x6BB5], banqiao),
      ([0x6587, 0x5316, 0x8DEF, 0x4E8C, 0x6BB5], banqiao),
      ([0x677F, 0x6A4B, 0x82B1, 0x5E02], banqiao),
      ([0x4E2D, 0x5C71, 0x8DEF, 0x4E00, 0x6BB5], banqiao),
      ([0x4E2D, 0x5C71, 0x8DEF, 0x4E8C, 0x6BB5], banqiao),
      ([0x5357, 0x96C5, 0x5357, 0x8DEF], banqiao),
      ([0x677F, 0x65B0, 0x8DEF], banqiao),
      ([0x6F22, 0x751F, 0x6771, 0x8DEF], banqiao),
      ([0x7E23, 0x6C11, 0x5927, 0x9053], banqiao),
      ([0x7ACB, 0x5FB7, 0x8DEF], banqiao),
      ([0x6C11, 0x5FB7, 0x8DEF], banqiao),
      ([0x6C11, 0x6B0A, 0x8DEF], banqiao),
      ([0x6C11, 0x65CF, 0x8DEF], banqiao),
      ([0x5009, 0x5F8C, 0x8857], banqiao),
      ([0x9577, 0x5B89, 0x8857], banqiao),
      ([0x6821, 0x524D, 0x8857], banqiao),
      ([0x967D, 0x660E, 0x8857], banqiao),
      ([0x6D77, 0x5C71, 0x8DEF], banqiao),
      ([0x5357, 0x83EF, 0x8DEF], banqiao),
      ([0x4FE1, 0x7FA9, 0x8DEF], banqiao),
      ([0x5357, 0x9580, 0x8857], banqiao),
      ([0x6C11, 0x751F, 0x8857], banqiao),
      ([0x4E09, 0x6C11, 0x8DEF], banqiao),
      ([0x56DB, 0x5DDD, 0x8DEF, 0x4E00, 0x6BB5], banqiao),
      ([0x56DB, 0x5DDD, 0x8DEF, 0x4E8C, 0x6BB5], banqiao),
      ([0x85DD, 0x6587, 0x8857], banqiao),
      ([0x9023, 0x57CE, 0x8DEF], zhonghe),
      ([0x666F, 0x65B0, 0x8857], zhonghe),
      ([0x548C, 0x5E73, 0x8DEF], zhonghe),
      ([0x548C, 0x5E73, 0x8857], zhonghe),
      ([0x4E2D, 0x548C, 0x8DEF], zhonghe),
      ([0x54E1, 0x5C71, 0x8DEF], zhonghe),
      ([0x5357, 0x5C71, 0x8DEF], zhonghe),
      ([0x4FDD, 0x5065, 0x8DEF], zhonghe),
      ([0x5EF6, 0x548C, 0x8DEF], yonghe),
      ([0x88D5, 0x6C11, 0x8DEF], tucheng),
      ([0x91D1, 0x57CE, 0x8DEF], tucheng),
      ([0x5FE0, 0x5B5D, 0x8DEF], tucheng),
      ([0x74CA, 0x6797, 0x8DEF], xinzhuang),
      ([0x6566, 0x5316, 0x5317, 0x8DEF], songshan),
      ([0x9577, 0x5B89, 0x6771, 0x8DEF], zhongshan),
      ([0x842C, 0x5BE7, 0x8857], wenshan)]"

text \<open>The manual overrides, keyed by the exact shop name.\<close>

definition MANUAL_OVERRIDES :: "(ustr \<times> ustr) list" where
  "MANUAL_OVERRIDES =
     [([0x53F0, 0x5317, 0x611B, 0x9E97, 0x7D72, 0x82B1, 0x574A, 0x7DB2, 0x8DEF, 0x82B1, 0x5E97], songshan),
      ([0x7396, 0x6849, 0x82B1, 0x85DD, 0x20, 0x5357, 0x4EAC, 0x5FA9, 0x8208], zhongshan),
      ([0x6986, 0x679C, 0x5DE5, 0x4F5C, 0x5BA4, 0x20, 0x28, 0x20, 0x6986, 0x679C, 0x50A2, 0x98FE, 0x20, 0x29], wenshan),
      ([0x82B1, 0x898B, 0x937E, 0x60C5, 0x82B1, 0x574A], tucheng),
      ([0x4D, 0x69, 0x6C, 0x6C, 0x69, 0x65, 0x7C73, 0x8389, 0x82B1, 0x85DD, 0x574A], tucheng),
      ([0x9E97, 0x7684, 0x82B1, 0x574A, 0x5DE5, 0x4F5C, 0x5BA4], banqiao)]"

section \<open>tag\_districts.py: distance and nearest centroid\<close>

text \<open>
  The functions of the \<^verbatim>\<open>math\<close> module. \<^verbatim>\<open>math.radians(x)\<close> multiplies by the
  double constant \<open>pi / 180\<close>; \<^verbatim>\<open>math.sqrt\<close> raises \<^verbatim>\<open>ValueError\<close> below zero;
  \<^verbatim>\<open>math.atan2(y, x)\<close> is the angle of the point \<open>(x, y)\<close> and never raises, and
  \<^verbatim>\<open>math.sin\<close> and \<^verbatim>\<open>math.cos\<close> do not raise on a finite argument.
\<close>

definition radians :: "rounding \<Rightarrow> real \<Rightarrow> real" where
  "radians fl x = fl (x * fl (fl pi / 180))"

definition py_sqrt :: "rounding \<Rightarrow> real \<Rightarrow> py_error + real" where
  "py_sqrt fl x = (if x < 0 then Inl ValueError else Inr (fl (sqrt x)))"

definition atan2 :: "real \<Rightarrow> real \<Rightarrow> real" where
  "atan2 y x =
     (if 0 < x then arctan (y / x)
      else if x < 0 then (if 0 \<le> y then arctan (y / x) + pi else arctan (y / x) - pi)
      else if 0 < y then pi / 2
      else if y < 0 then - (pi / 2)
      else 0)"

text \<open>
  \<^verbatim>\<open>
  def great_circle_distance(lat1, lon1, lat2, lon2):
      r = 6371.0
      phi1, phi2 = math.radians(lat1), math.radians(lat2)
      dphi = math.radians(lat2 - lat1)
      dlambda = math.radians(lon2 - lon1)
      a = math.sin(dphi / 2) ** 2 + math.cos(phi1) * math.cos(phi2) * math.sin(dlambda / 2) ** 2
      return 2 * r * math.atan2(math.sqrt(a), math.sqrt(1 - a))
  \<close>
  Every operation rounds its result. The operator \<^verbatim>\<open>**\<close> binds tighter than
  \<^verbatim>\<open>*\<close>, and the products associate to the left.
\<close>

definition great_circle_distance ::
  "rounding \<Rightarrow> real \<Rightarrow> real \<Rightarrow> real \<Rightarrow> real \<Rightarrow> py_error + real" where
  "great_circle_distance fl lat1 lon1 lat2 lon2 =
     (let r = fl 6371.0;
          phi1 = radians fl lat1; phi2 = radians fl lat2;
          dphi = radians fl (fl (lat2 - lat1));
          dlambda = radians fl (fl (lon2 - lon1));
          a = fl (fl ((fl (sin (fl (dphi / 2))))\<^sup>2)
                + fl (fl (fl (cos phi1) * fl (cos phi2)) * fl ((fl (sin (fl (dlambda / 2))))\<^sup>2)))
      in case py_sqrt fl a of
           Inl e \<Rightarrow> Inl e
         | Inr sa \<Rightarrow>
             (case py_sqrt fl (fl (1 - a)) of
                Inl e \<Rightarrow> Inl e
              | Inr sb \<Rightarrow> Inr (fl (fl (2 * r) * fl (atan2 sa sb)))))"

text \<open>The value of the variable \<^verbatim>\<open>a\<close> above, named for the statements about it.\<close>

definition haversine_term :: "rounding \<Rightarrow> real \<Rightarrow> real \<Rightarrow> real \<Rightarrow> real \<Rightarrow> real" where
  "haversine_term fl lat1 lon1 lat2 lon2 =
     fl (fl ((fl (sin (fl (radians fl (fl (lat2 - lat1)) / 2))))\<^sup>2)
       + fl (fl (fl (cos (radians fl lat1)) * fl (cos (radians fl lat2)))
             * fl ((fl (sin (fl (radians fl (fl (lon2 - lon1)) / 2))))\<^sup>2)))"

text \<open>
  A dictionary under construction is an association list in insertion order: storing
  under a key that is present replaces the value where the key stands, storing under a
  new key appends.
\<close>

fun dict_set :: "'k \<Rightarrow> 'v \<Rightarrow> ('k \<times> 'v) list \<Rightarrow> ('k \<times> 'v) list" where
  "dict_set k v [] = [(k, v)]"
| "dict_set k v ((k', v') # ps) =
     (if k = k' then (k, v) # ps else (k', v') # dict_set k v ps)"

text \<open>
  The comprehension
  \<^verbatim>\<open>{centroid.name: great_circle_distance(lat, lon, centroid.lat, centroid.lon) for centroid in CENTROIDS}\<close>:
  one distance per centroid, in order; an exception of a distance ends it.
\<close>

fun distances_of ::
  "rounding \<Rightarrow> real \<Rightarrow> real \<Rightarrow> centroid list \<Rightarrow> (ustr \<times> real) list
     \<Rightarrow> py_error + (ustr \<times> real) list" where
  "distances_of fl la lo [] acc = Inr acc"
| "distances_of fl la lo (c # cs) acc =
     (case great_circle_distance fl la lo (c_lat c) (c_lon c) of
        Inl e \<Rightarrow> Inl e
      | Inr d \<Rightarrow> distances_of fl la lo cs (dict_set (c_name c) d acc))"

text \<open>
  \<^verbatim>\<open>min(distances, key=distances.get)\<close> walks the keys in insertion order, each with
  its own value as the sort key, and replaces the best key so far only by one whose
  value is strictly smaller; on an empty dictionary it raises \<^verbatim>\<open>ValueError\<close>.
\<close>

fun min_by_value :: "('k \<times> 'v::linorder) \<Rightarrow> ('k \<times> 'v) list \<Rightarrow> 'k \<times> 'v" where
  "min_by_value best [] = best"
| "min_by_value best (p # ps) = min_by_value (if snd p < snd best then p else best) ps"

definition py_min_key :: "('k \<times> 'v::linorder) list \<Rightarrow> py_error + 'k" where
  "py_min_key d = (case d of [] \<Rightarrow> Inl ValueError | p # ps \<Rightarrow> Inr (fst (min_by_value p ps)))"

text \<open>
  \<^verbatim>\<open>
  def nearest_centroid(lat: float, lon: float) -> str:
      distances = {...}
      return min(distances, key=distances.get)
  \<close>
\<close>

definition nearest_centroid :: "rounding \<Rightarrow> real \<Rightarrow> real \<Rightarrow> py_error + ustr" where
  "nearest_centroid fl lat lon =
     (case distances_of fl lat lon (CENTROIDS fl) [] of
        Inl e \<Rightarrow> Inl e
      | Inr distances \<Rightarrow> py_min_key distances)"

section \<open>tag\_districts.py: the coordinate extractor\<close>

text \<open>
  \<^verbatim>\<open>COORD_RE = re.compile(r"!3d([0-9.+-]+)!4d([0-9.+-]+)")\<close>

  The class \<^verbatim>\<open>[0-9.+-]\<close> holds the ASCII digits, the dot, plus and minus. Neither
  group can give a character back when the matcher backtracks, because the text that
  has to follow a group starts with \<^verbatim>\<open>!\<close> (or is the end of the match), which is not
  in the class: at a given start position the greedy match is the only candidate.
\<close>

definition coord_char :: "nat \<Rightarrow> bool" where
  "coord_char c \<longleftrightarrow> (48 \<le> c \<and> c \<le> 57) \<or> c = 46 \<or> c = 43 \<or> c = 45"

definition match_here :: "ustr \<Rightarrow> (ustr \<times> ustr) option" where
  "match_here s =
     (if starts_with (asc ''!3d'') s then
        (let r = drop 3 s; g1 = takeWhile coord_char r; r' = dropWhile coord_char r in
         if g1 = [] then None
         else if starts_with (asc ''!4d'') r' then
           (let g2 = takeWhile coord_char (drop 3 r') in
            if g2 = [] then None else Some (g1, g2))
         else None)
      else None)"

text \<open>\<^verbatim>\<open>COORD_RE.search(url)\<close>: the match at the leftmost position that has one.\<close>

fun re_search :: "ustr \<Rightarrow> (ustr \<times> ustr) option" where
  "re_search [] = None"
| "re_search (c # cs) =
     (case match_here (c # cs) of Some m \<Rightarrow> Some m | None \<Rightarrow> re_search cs)"

text \<open>
  \<^verbatim>\<open>float(token)\<close> for a token of the class \<^verbatim>\<open>[0-9.+-]\<close>, the only strings
  \<open>extract_coords\<close> converts: an optional sign, then digits with at most one dot and at
  least one digit. Anything else raises \<^verbatim>\<open>ValueError\<close>. The value is the decimal
  number the token writes, rounded to a double. A token whose number is beyond the range
  of the doubles (one of more than 308 digits before the dot) is an infinity in Python,
  and the distance of an infinite coordinate raises \<^verbatim>\<open>ValueError\<close> in
  \<^verbatim>\<open>math.sin\<close>. The floats of this model are finite: it gives such a token its
  rounded value and has no counterpart of that exception, so what is said below about
  the distance and the classifier is said of finite coordinates.
\<close>

definition is_digit :: "nat \<Rightarrow> bool" where
  "is_digit c \<longleftrightarrow> 48 \<le> c \<and> c \<le> 57"

definition digits_val :: "ustr \<Rightarrow> nat" where
  "digits_val ds = foldl (\<lambda>a c. 10 * a + (c - 48)) 0 ds"

definition unsigned_decimal :: "ustr \<Rightarrow> py_error + real" where
  "unsigned_decimal body =
     (let ip = takeWhile is_digit body; rest = dropWhile is_digit body in
      case rest of
        [] \<Rightarrow> if ip = [] then Inl ValueError else Inr (real (digits_val ip))
      | d # fp \<Rightarrow>
          if d = 46 \<and> list_all is_digit fp \<and> (ip \<noteq> [] \<or> fp \<noteq> [])
          then Inr (real (digits_val ip) + real (digits_val fp) / 10 ^ length fp)
          else Inl ValueError)"

definition signed_decimal :: "ustr \<Rightarrow> py_error + real" where
  "signed_decimal s =
     (case s of
        [] \<Rightarrow> Inl ValueError
      | c # cs \<Rightarrow>
          if c = 45 then map_sum id uminus (unsigned_decimal cs)
          else if c = 43 then unsigned_decimal cs
          else unsigned_decimal s)"

definition float_of_token :: "rounding \<Rightarrow> ustr \<Rightarrow> py_error + real" where
  "float_of_token fl s = map_sum id fl (signed_decimal s)"

text \<open>
  \<^verbatim>\<open>
  def extract_coords(url: str) -> Tuple[float | None, float | None]:
      match = COORD_RE.search(url)
      if not match:
          return None, None
      return float(match.group(1)), float(match.group(2))
  \<close>
  The two conversions run left to right and nothing catches what they raise.
\<close>

definition extract_coords :: "rounding \<Rightarrow> ustr \<Rightarrow> py_error + (real option \<times> real option)" where
  "extract_coords fl url =
     (case re_search url of
        None \<Rightarrow> Inr (None, None)
      | Some (g1, g2) \<Rightarrow>
          (case float_of_token fl g1 of
             Inl e \<Rightarrow> Inl e
           | Inr la \<Rightarrow>
               (case float_of_token fl g2 of
                  Inl e \<Rightarrow> Inl e
                | Inr lo \<Rightarrow> Inr (Some la, Some lo))))"

section \<open>tag\_districts.py: the classifier\<close>

text \<open>
  The loop \<^verbatim>\<open>for key, district in TABLE.items(): if key in s: return district\<close>;
  \<open>None\<close> when it runs to its end.
\<close>

fun first_match :: "(ustr \<times> ustr) list \<Rightarrow> ustr \<Rightarrow> ustr option" where
  "first_match [] s = None"
| "first_match ((k, d) # items) s = (if str_in k s then Some d else first_match items s)"

text \<open>The f-string \<^verbatim>\<open>f"{name} {address} {url}"\<close>.\<close>

definition combined :: "ustr \<Rightarrow> ustr \<Rightarrow> ustr \<Rightarrow> ustr" where
  "combined name address url = name @ asc '' '' @ address @ asc '' '' @ url"

text \<open>
  \<^verbatim>\<open>
  def infer_district(name, address, url, lat, lon):
      combined = f"{name} {address} {url}"
      for keyword, district in DISTRICT_KEYWORDS.items():
          if keyword in combined:
              return district
      for road, district in ROAD_TO_DISTRICT.items():
          if road in address:
              return district
      if name in MANUAL_OVERRIDES:
          return MANUAL_OVERRIDES[name]
      if lat is not None and lon is not None:
          return nearest_centroid(lat, lon)
      return "\u5f85\u78ba\u8a8d"
  \<close>
\<close>

definition infer_district ::
  "rounding \<Rightarrow> ustr \<Rightarrow> ustr \<Rightarrow> ustr \<Rightarrow> real option \<Rightarrow> real option \<Rightarrow> py_error + ustr" where
  "infer_district fl name address url lat lon =
     (case first_match DISTRICT_KEYWORDS (combined name address url) of
        Some district \<Rightarrow> Inr district
      | None \<Rightarrow>
          (case first_match ROAD_TO_DISTRICT address of
             Some district \<Rightarrow> Inr district
           | None \<Rightarrow>
               (case map_of MANUAL_OVERRIDES name of
                  Some district \<Rightarrow> Inr district
                | None \<Rightarrow>
                    (case (lat, lon) of
                       (Some la, Some lo) \<Rightarrow> nearest_centroid fl la lo
                     | _ \<Rightarrow> Inr unresolved))))"

text \<open>
  The district names the tables and the registry can give (the names of the centroids do
  not depend on the rounding).
\<close>

definition known_districts :: "ustr set" where
  "known_districts =
     snd ` set DISTRICT_KEYWORDS \<union> snd ` set ROAD_TO_DISTRICT
       \<union> snd ` set MANUAL_OVERRIDES \<union> c_name ` set (CENTROIDS exact)"

section \<open>clean\_flowerstores.py: the normalizers\<close>

text \<open>
  \<^verbatim>\<open>str.strip()\<close> removes the characters of \<^verbatim>\<open>str.isspace\<close> from both ends.
\<close>

definition is_space :: "nat \<Rightarrow> bool" where
  "is_space c \<longleftrightarrow>
     (0x9 \<le> c \<and> c \<le> 0xD) \<or> (0x1C \<le> c \<and> c \<le> 0x20) \<or> c = 0x85 \<or> c = 0xA0
       \<or> c = 0x1680 \<or> (0x2000 \<le> c \<and> c \<le> 0x200A) \<or> c = 0x2028 \<or> c = 0x2029
       \<or> c = 0x202F \<or> c = 0x205F \<or> c = 0x3000"

definition strip :: "ustr \<Rightarrow> ustr" where
  "strip s = rev (dropWhile is_space (rev (dropWhile is_space s)))"

text \<open>\<^verbatim>\<open>str(count)\<close> of an integer: its decimal digits, after a minus sign when negative.\<close>

fun digits_of :: "nat \<Rightarrow> ustr" where
  "digits_of n = (if n < 10 then [48 + n] else digits_of (n div 10) @ [48 + n mod 10])"

definition str_of_int :: "int \<Rightarrow> ustr" where
  "str_of_int i = (if i < 0 then 45 # digits_of (nat (- i)) else digits_of (nat i))"

text \<open>
  The conversions \<^verbatim>\<open>float(value)\<close> and \<^verbatim>\<open>int(value)\<close> of an arbitrary string and
  the formatting \<^verbatim>\<open>format(x, "g")\<close> belong to the Python runtime: the normalizers take
  them as parameters, a conversion returning either the exception it raises or its value.
  \<^verbatim>\<open>
  def normalize_rating(value: str) -> str:
      value = value.strip()
      if not value:
          return ""
      try:
          normalized = format(float(value), "g")
      except ValueError:
          return ""
      return normalized
  \<close>
  Only \<^verbatim>\<open>ValueError\<close> is caught; any other exception leaves the function.
\<close>

definition normalize_rating ::
  "(ustr \<Rightarrow> py_error + 'f) \<Rightarrow> ('f \<Rightarrow> ustr) \<Rightarrow> ustr \<Rightarrow> py_error + ustr" where
  "normalize_rating py_float format_g val =
     (let v = strip val in
      if v = [] then Inr []
      else (case py_float v of
              Inl e \<Rightarrow> (if e = ValueError then Inr [] else Inl e)
            | Inr x \<Rightarrow> Inr (format_g x)))"

text \<open>
  \<^verbatim>\<open>
  def normalize_review_count(value: str) -> str:
      value = value.strip()
      if not value:
          return ""
      try:
          count = int(value)
      except ValueError:
          return ""
      return str(count)
  \<close>
\<close>

definition normalize_review_count :: "(ustr \<Rightarrow> py_error + int) \<Rightarrow> ustr \<Rightarrow> py_error + ustr" where
  "normalize_review_count py_int val =
     (let v = strip val in
      if v = [] then Inr []
      else (case py_int v of
              Inl e \<Rightarrow> (if e = ValueError then Inr [] else Inl e)
            | Inr count \<Rightarrow> Inr (str_of_int count)))"

text \<open>
  An instance of \<^verbatim>\<open>int\<close> for the examples: a sign and ASCII digits. (The runtime's
  \<^verbatim>\<open>int\<close> accepts more: other decimal digits of Unicode, single underscores.) The
  instance of \<^verbatim>\<open>float\<close> in the examples is \<open>float_of_token exact\<close>.
\<close>

definition int_of_ascii :: "ustr \<Rightarrow> py_error + int" where
  "int_of_ascii s =
     (let neg = (s \<noteq> [] \<and> hd s = 45);
          body = (if s \<noteq> [] \<and> (hd s = 45 \<or> hd s = 43) then tl s else s)
      in if body \<noteq> [] \<and> list_all is_digit body
         then Inr (if neg then - int (digits_val body) else int (digits_val body))
         else Inl ValueError)"

section \<open>Substring search and the scan of a table\<close>

lemma starts_with_iff: "starts_with p s \<longleftrightarrow> (\<exists>post. s = p @ post)"
proof
  assume "starts_with p s"
  then have "s = p @ drop (length p) s"
    by (metis append_take_drop_id starts_with_def)
  then show "\<exists>post. s = p @ post" ..
next
  assume "\<exists>post. s = p @ post"
  then show "starts_with p s" by (auto simp: starts_with_def)
qed

lemma str_in_iff: "str_in k s \<longleftrightarrow> (\<exists>pre post. s = pre @ k @ post)"
proof (induction s)
  case Nil
  then show ?case by auto
next
  case (Cons c cs)
  show ?case
  proof
    assume "str_in k (c # cs)"
    then consider "starts_with k (c # cs)" | "str_in k cs" by auto
    then show "\<exists>pre post. c # cs = pre @ k @ post"
    proof cases
      case 1
      then obtain post where "c # cs = k @ post" by (auto simp: starts_with_iff)
      then have "c # cs = [] @ k @ post" by simp
      then show ?thesis by blast
    next
      case 2
      with Cons.IH obtain pre post where "cs = pre @ k @ post" by blast
      then have "c # cs = (c # pre) @ k @ post" by simp
      then show ?thesis by blast
    qed
  next
    assume "\<exists>pre post. c # cs = pre @ k @ post"
    then obtain pre post where e: "c # cs = pre @ k @ post" by blast
    show "str_in k (c # cs)"
    proof (cases pre)
      case Nil
      with e have "starts_with k (c # cs)" by (auto simp: starts_with_iff)
      then show ?thesis by simp
    next
      case (Cons p ps)
      with e have "cs = ps @ k @ post" by simp
      with Cons.IH have "str_in k cs" by blast
      then show ?thesis by simp
    qed
  qed
qed

lemma first_match_None_iff:
  "first_match T s = None \<longleftrightarrow> (\<forall>k\<in>fst ` set T. \<not> str_in k s)"
  by (induction T s rule: first_match.induct) auto

lemma first_match_Some_iff:
  "first_match T s = Some d \<longleftrightarrow>
     (\<exists>i<length T. str_in (fst (T ! i)) s \<and> (\<forall>j<i. \<not> str_in (fst (T ! j)) s) \<and> d = snd (T ! i))"
proof (induction T s rule: first_match.induct)
  case (1 s)
  then show ?case by simp
next
  case (2 k d' items s)
  show ?case
  proof (cases "str_in k s")
    case True
    have "(\<exists>i<length ((k, d') # items). str_in (fst (((k, d') # items) ! i)) s \<and>
            (\<forall>j<i. \<not> str_in (fst (((k, d') # items) ! j)) s) \<and> d = snd (((k, d') # items) ! i))
          \<longleftrightarrow> d = d'"
    proof
      assume "\<exists>i<length ((k, d') # items). str_in (fst (((k, d') # items) ! i)) s \<and>
            (\<forall>j<i. \<not> str_in (fst (((k, d') # items) ! j)) s) \<and> d = snd (((k, d') # items) ! i)"
      then obtain i where i: "\<forall>j<i. \<not> str_in (fst (((k, d') # items) ! j)) s"
        "d = snd (((k, d') # items) ! i)" by blast
      have "i = 0"
      proof (rule ccontr)
        assume "i \<noteq> 0"
        then have "0 < i" by simp
        with i(1) have "\<not> str_in (fst (((k, d') # items) ! 0)) s" by blast
        with True show False by simp
      qed
      with i(2) show "d = d'" by simp
    next
      assume "d = d'"
      with True show "\<exists>i<length ((k, d') # items). str_in (fst (((k, d') # items) ! i)) s \<and>
            (\<forall>j<i. \<not> str_in (fst (((k, d') # items) ! j)) s) \<and> d = snd (((k, d') # items) ! i)"
        by (intro exI [of _ 0]) simp
    qed
    with True show ?thesis by auto
  next
    case False
    have "(\<exists>i<length ((k, d') # items). str_in (fst (((k, d') # items) ! i)) s \<and>
            (\<forall>j<i. \<not> str_in (fst (((k, d') # items) ! j)) s) \<and> d = snd (((k, d') # items) ! i))
          \<longleftrightarrow> (\<exists>i<length items. str_in (fst (items ! i)) s \<and>
            (\<forall>j<i. \<not> str_in (fst (items ! j)) s) \<and> d = snd (items ! i))" (is "?L \<longleftrightarrow> ?R")
    proof
      assume ?L
      then obtain i where i: "i < length ((k, d') # items)" "str_in (fst (((k, d') # items) ! i)) s"
        "\<forall>j<i. \<not> str_in (fst (((k, d') # items) ! j)) s" "d = snd (((k, d') # items) ! i)" by blast
      from i(2) False obtain i' where i': "i = Suc i'" by (cases i) auto
      have "\<forall>j<i'. \<not> str_in (fst (items ! j)) s"
      proof (intro allI impI)
        fix j assume "j < i'"
        then have "Suc j < i" using i' by simp
        with i(3) have "\<not> str_in (fst (((k, d') # items) ! Suc j)) s" by blast
        then show "\<not> str_in (fst (items ! j)) s" by simp
      qed
      with i i' show ?R by (intro exI [of _ i']) simp
    next
      assume ?R
      then obtain i where i: "i < length items" "str_in (fst (items ! i)) s"
        "\<forall>j<i. \<not> str_in (fst (items ! j)) s" "d = snd (items ! i)" by blast
      have "\<forall>j<Suc i. \<not> str_in (fst (((k, d') # items) ! j)) s"
      proof (intro allI impI)
        fix j assume j: "j < Suc i"
        show "\<not> str_in (fst (((k, d') # items) ! j)) s"
        proof (cases j)
          case 0
          with False show ?thesis by simp
        next
          case (Suc j')
          with j i(3) show ?thesis by simp
        qed
      qed
      with i show ?L by (intro exI [of _ "Suc i"]) simp
    qed
    with False 2 show ?thesis by simp
  qed
qed

lemma first_match_in: "first_match T s = Some d \<Longrightarrow> d \<in> snd ` set T"
  by (induction T s rule: first_match.induct) (auto split: if_splits)

section \<open>Properties of the distance\<close>

lemma great_circle_distance_unfold:
  "great_circle_distance fl lat1 lon1 lat2 lon2 =
     (case py_sqrt fl (haversine_term fl lat1 lon1 lat2 lon2) of
        Inl e \<Rightarrow> Inl e
      | Inr sa \<Rightarrow>
          (case py_sqrt fl (fl (1 - haversine_term fl lat1 lon1 lat2 lon2)) of
             Inl e \<Rightarrow> Inl e
           | Inr sb \<Rightarrow> Inr (fl (fl (2 * fl 6371) * fl (atan2 sa sb)))))"
  unfolding great_circle_distance_def haversine_term_def Let_def
  by (simp split: sum.splits)

lemma great_circle_distance_cases:
  "great_circle_distance fl lat1 lon1 lat2 lon2 = Inl ValueError
     \<or> (\<exists>d. great_circle_distance fl lat1 lon1 lat2 lon2 = Inr d)"
  by (simp add: great_circle_distance_unfold py_sqrt_def)

text \<open>
  The distance raises exactly when the rounded term \<open>a\<close>, or the rounded \<open>1 - a\<close>, is
  negative: then a square root is taken of a negative number.
\<close>

lemma great_circle_distance_raises_iff:
  "great_circle_distance fl lat1 lon1 lat2 lon2 = Inl e \<longleftrightarrow>
     e = ValueError \<and> (haversine_term fl lat1 lon1 lat2 lon2 < 0
                        \<or> fl (1 - haversine_term fl lat1 lon1 lat2 lon2) < 0)"
  by (auto simp: great_circle_distance_unfold py_sqrt_def)

subsection \<open>Rounding that respects the sign\<close>

lemma fl_zero:
  fixes fl :: rounding
  assumes "\<forall>x. fl (- x) = - fl x"
  shows "fl 0 = 0"
proof -
  from assms have "fl (- 0) = - fl 0" by blast
  then show ?thesis by simp
qed

lemma radians_minus: "\<forall>x. fl (- x) = - fl x \<Longrightarrow> radians fl (- x) = - radians fl x"
  by (simp add: radians_def)

lemma haversine_term_sym:
  assumes odd: "\<forall>x. fl (- x) = - fl x"
  shows "haversine_term fl lat1 lon1 lat2 lon2 = haversine_term fl lat2 lon2 lat1 lon1"
proof -
  have flip: "(fl (sin (fl (radians fl (fl (y - x)) / 2))))\<^sup>2
                = (fl (sin (fl (radians fl (fl (x - y)) / 2))))\<^sup>2" for x y
  proof -
    have "fl (y - x) = - fl (x - y)"
      using odd [rule_format, of "x - y"] by simp
    then have "radians fl (fl (y - x)) = - radians fl (fl (x - y))"
      using radians_minus [OF odd] by simp
    then have "fl (radians fl (fl (y - x)) / 2) = - fl (radians fl (fl (x - y)) / 2)"
      using odd [rule_format, of "radians fl (fl (x - y)) / 2"] by simp
    then have "fl (sin (fl (radians fl (fl (y - x)) / 2)))
                 = - fl (sin (fl (radians fl (fl (x - y)) / 2)))"
      using odd [rule_format, of "sin (fl (radians fl (fl (x - y)) / 2))"] by simp
    then show ?thesis by simp
  qed
  show ?thesis
    unfolding haversine_term_def flip [of lat1 lat2] flip [of lon1 lon2]
    by (simp add: mult.commute)
qed

lemma haversine_term_self:
  assumes odd: "\<forall>x. fl (- x) = - fl x"
  shows "haversine_term fl la lo la lo = 0"
  using fl_zero [OF odd] by (simp add: haversine_term_def radians_def)

lemma great_circle_distance_self:
  assumes odd: "\<forall>x. fl (- x) = - fl x" and one: "fl 1 = 1"
  shows "great_circle_distance fl la lo la lo = Inr 0"
  using fl_zero [OF odd] one
  by (simp add: great_circle_distance_unfold haversine_term_self [OF odd] py_sqrt_def atan2_def)

text \<open>
  Claim C7. With a rounding that respects the sign and keeps the number one, as IEEE
  round-to-nearest does, the distance is symmetric in its two points: the two calls
  return the same number (or raise the same exception), and the distance of a point to
  itself is the number zero.
\<close>

theorem great_circle_distance_symmetric_and_zero:
  assumes "\<forall>x. fl (- x) = - fl x" and "fl 1 = 1"
  shows "great_circle_distance fl lat1 lon1 lat2 lon2 = great_circle_distance fl lat2 lon2 lat1 lon1
     \<and> great_circle_distance fl lat1 lon1 lat1 lon1 = Inr 0"
proof -
  have "haversine_term fl lat1 lon1 lat2 lon2 = haversine_term fl lat2 lon2 lat1 lon1"
    using assms(1) by (rule haversine_term_sym)
  then have "great_circle_distance fl lat1 lon1 lat2 lon2
               = great_circle_distance fl lat2 lon2 lat1 lon1"
    by (simp only: great_circle_distance_unfold)
  moreover have "great_circle_distance fl lat1 lon1 lat1 lon1 = Inr 0"
    using assms by (rule great_circle_distance_self)
  ultimately show ?thesis ..
qed

subsection \<open>Exact arithmetic\<close>

lemma radians_exact: "radians exact x = x * (pi / 180)"
  by (simp add: radians_def exact_def)

lemma radians_exact_diff: "radians exact (x - y) = radians exact x - radians exact y"
  by (simp add: radians_exact left_diff_distrib)

lemma haversine_term_exact:
  "haversine_term exact lat1 lon1 lat2 lon2 =
     (sin ((radians exact lat2 - radians exact lat1) / 2))\<^sup>2
       + cos (radians exact lat1) * cos (radians exact lat2)
           * (sin ((radians exact lon2 - radians exact lon1) / 2))\<^sup>2"
  by (simp add: haversine_term_def exact_def radians_exact_diff)

lemma haversine_decomp:
  fixes p1 p2 l :: real
  defines "s \<equiv> (sin (l / 2))\<^sup>2"
  shows "(sin ((p2 - p1) / 2))\<^sup>2 + cos p1 * cos p2 * s
           = (1 - s) * ((1 - cos (p2 - p1)) / 2) + s * ((1 + cos (p2 + p1)) / 2)"
proof -
  define x where "x = (p2 - p1) / 2"
  have x: "p2 - p1 = 2 * x" by (simp add: x_def)
  have "cos (2 * x) = 1 - 2 * (sin x)\<^sup>2" by (rule cos_double_sin)
  then have A: "(sin ((p2 - p1) / 2))\<^sup>2 = (1 - cos (p2 - p1)) / 2"
    unfolding x [symmetric] by (simp add: x_def)
  have B: "cos p1 * cos p2 = (cos (p2 - p1) + cos (p2 + p1)) / 2"
    by (simp add: cos_diff cos_add)
  show ?thesis unfolding A B by (simp add: field_simps)
qed

text \<open>In exact arithmetic the term \<open>a\<close> lies between 0 and 1, for all coordinates.\<close>

lemma haversine_term_bounds:
  "0 \<le> haversine_term exact lat1 lon1 lat2 lon2 \<and> haversine_term exact lat1 lon1 lat2 lon2 \<le> 1"
proof -
  define p1 p2 l where "p1 = radians exact lat1" and "p2 = radians exact lat2"
    and "l = radians exact lon2 - radians exact lon1"
  define s where "s = (sin (l / 2))\<^sup>2"
  define u where "u = (1 - cos (p2 - p1)) / 2"
  define v where "v = (1 + cos (p2 + p1)) / 2"
  have a: "haversine_term exact lat1 lon1 lat2 lon2 = (1 - s) * u + s * v"
    unfolding haversine_term_exact s_def u_def v_def p1_def p2_def l_def
    by (rule haversine_decomp)
  have s: "0 \<le> s" "s \<le> 1"
  proof -
    show "0 \<le> s" by (simp add: s_def)
    show "s \<le> 1"
      using sin_cos_squared_add [of "l / 2"] zero_le_power2 [of "cos (l / 2)"]
      unfolding s_def by linarith
  qed
  have half: "0 \<le> (1 - c) / 2 \<and> (1 - c) / 2 \<le> 1 \<and> 0 \<le> (1 + c) / 2 \<and> (1 + c) / 2 \<le> 1"
    if "- 1 \<le> c" "c \<le> 1" for c :: real
  proof -
    from that have "0 \<le> 1 - c" "1 - c \<le> 2" "0 \<le> 1 + c" "1 + c \<le> 2" by linarith+
    then show ?thesis by simp
  qed
  have u: "0 \<le> u" "u \<le> 1"
    unfolding u_def using half [OF cos_ge_minus_one cos_le_one, of "p2 - p1"] by blast+
  have v: "0 \<le> v" "v \<le> 1"
    unfolding v_def using half [OF cos_ge_minus_one cos_le_one, of "p2 + p1"] by blast+
  have lo: "0 \<le> (1 - s) * u + s * v"
    using s u v by (intro add_nonneg_nonneg mult_nonneg_nonneg) simp_all
  have "(1 - s) * u \<le> (1 - s) * 1" using s u by (intro mult_left_mono) simp_all
  moreover have "s * v \<le> s * 1" using s v by (intro mult_left_mono) simp_all
  ultimately have hi: "(1 - s) * u + s * v \<le> 1" by simp
  from a lo hi show ?thesis by simp
qed

text \<open>So in exact arithmetic no square root is taken of a negative number.\<close>

lemma great_circle_distance_exact:
  "great_circle_distance exact lat1 lon1 lat2 lon2 =
     Inr (2 * 6371 * atan2 (sqrt (haversine_term exact lat1 lon1 lat2 lon2))
                         (sqrt (1 - haversine_term exact lat1 lon1 lat2 lon2)))"
proof -
  have "\<not> haversine_term exact lat1 lon1 lat2 lon2 < 0"
    "\<not> exact (1 - haversine_term exact lat1 lon1 lat2 lon2) < 0"
    using haversine_term_bounds [of lat1 lon1 lat2 lon2] by (simp_all add: exact_def)
  then show ?thesis
    by (simp add: great_circle_distance_unfold py_sqrt_def) (simp add: exact_def)
qed

lemma atan2_nonneg: "0 \<le> y \<Longrightarrow> 0 \<le> x \<Longrightarrow> 0 \<le> atan2 y x"
  by (auto simp: atan2_def)

lemma great_circle_distance_exact_nonneg:
  "great_circle_distance exact lat1 lon1 lat2 lon2 = Inr d \<Longrightarrow> 0 \<le> d"
  using haversine_term_bounds [of lat1 lon1 lat2 lon2]
  by (auto simp: great_circle_distance_exact intro!: mult_nonneg_nonneg atan2_nonneg)

lemma exact_sign: "\<forall>x. exact (- x) = - exact x" and exact_one: "exact 1 = 1"
  by (simp_all add: exact_def)

text \<open>
  In exact arithmetic, at two centroids of the registry: the two directions agree, and
  the distance of the first centroid to itself is zero.
\<close>

theorem great_circle_distance_symmetric_and_zero_witness:
  "great_circle_distance exact 25.0112 121.4637 24.9990 121.4870
     = great_circle_distance exact 24.9990 121.4870 25.0112 121.4637
   \<and> great_circle_distance exact 25.0112 121.4637 25.0112 121.4637 = Inr 0"
  by (rule great_circle_distance_symmetric_and_zero [OF exact_sign exact_one])

section \<open>Properties of the nearest-centroid resolver\<close>

lemma dict_set_fresh: "k \<notin> fst ` set acc \<Longrightarrow> dict_set k v acc = acc @ [(k, v)]"
  by (induction acc) auto

lemma distances_of_distinct:
  "\<forall>c\<in>set cs. great_circle_distance fl la lo (c_lat c) (c_lon c) = Inr (D c) \<Longrightarrow>
   distinct (map c_name cs) \<Longrightarrow> c_name ` set cs \<inter> fst ` set acc = {} \<Longrightarrow>
     distances_of fl la lo cs acc = Inr (acc @ map (\<lambda>c. (c_name c, D c)) cs)"
proof (induction cs arbitrary: acc)
  case Nil
  then show ?case by simp
next
  case (Cons c cs)
  from Cons.prems have fresh: "c_name c \<notin> fst ` set acc" by auto
  have step: "dict_set (c_name c) (D c) acc = acc @ [(c_name c, D c)]"
    using fresh by (rule dict_set_fresh)
  have d: "great_circle_distance fl la lo (c_lat c) (c_lon c) = Inr (D c)"
    using Cons.prems(1) by simp
  have "c_name ` set cs \<inter> fst ` set (acc @ [(c_name c, D c)]) = {}"
    using Cons.prems by auto
  with Cons.IH [of "acc @ [(c_name c, D c)]"] Cons.prems(1,2)
  have "distances_of fl la lo cs (acc @ [(c_name c, D c)])
          = Inr ((acc @ [(c_name c, D c)]) @ map (\<lambda>c. (c_name c, D c)) cs)"
    by simp
  then show ?case
    by (simp add: d step)
qed

lemma distances_of_raises:
  "\<exists>c\<in>set cs. great_circle_distance fl la lo (c_lat c) (c_lon c) = Inl ValueError \<Longrightarrow>
     distances_of fl la lo cs acc = Inl ValueError"
proof (induction cs arbitrary: acc)
  case Nil
  then show ?case by simp
next
  case (Cons c cs)
  show ?case
  proof (cases "great_circle_distance fl la lo (c_lat c) (c_lon c)")
    case (Inl e)
    with great_circle_distance_cases [of fl la lo "c_lat c" "c_lon c"] have "e = ValueError"
      by simp
    with Inl show ?thesis by simp
  next
    case (Inr d)
    with Cons.prems have "\<exists>c\<in>set cs. great_circle_distance fl la lo (c_lat c) (c_lon c) = Inl ValueError"
      by auto
    from Cons.IH [OF this] Inr show ?thesis by simp
  qed
qed

lemma min_by_value_acc:
  "min_by_value b ps = b \<and> (\<forall>q\<in>set ps. snd b \<le> snd q)
   \<or> (\<exists>i<length ps. min_by_value b ps = ps ! i \<and> snd (ps ! i) < snd b
          \<and> (\<forall>q\<in>set (take i ps). snd (ps ! i) < snd q) \<and> (\<forall>q\<in>set ps. snd (ps ! i) \<le> snd q))"
proof (induction ps arbitrary: b)
  case Nil
  then show ?case by simp
next
  case (Cons p ps)
  define b' where "b' = (if snd p < snd b then p else b)"
  have b': "snd b' \<le> snd b" "snd b' \<le> snd p" by (auto simp: b'_def)
  have r: "min_by_value b (p # ps) = min_by_value b' ps" by (simp add: b'_def)
  from Cons.IH [of b'] consider
    (keep) "min_by_value b' ps = b'" "\<forall>q\<in>set ps. snd b' \<le> snd q"
  | (later) i where "i < length ps" "min_by_value b' ps = ps ! i" "snd (ps ! i) < snd b'"
      "\<forall>q\<in>set (take i ps). snd (ps ! i) < snd q" "\<forall>q\<in>set ps. snd (ps ! i) \<le> snd q"
    by blast
  then show ?case
  proof cases
    case keep
    show ?thesis
    proof (cases "snd p < snd b")
      case True
      then have "b' = p" by (simp add: b'_def)
      with keep True r have "0 < length (p # ps) \<and> min_by_value b (p # ps) = (p # ps) ! 0
          \<and> snd ((p # ps) ! 0) < snd b
          \<and> (\<forall>q\<in>set (take 0 (p # ps)). snd ((p # ps) ! 0) < snd q)
          \<and> (\<forall>q\<in>set (p # ps). snd ((p # ps) ! 0) \<le> snd q)" by simp
      then show ?thesis by blast
    next
      case False
      then have "b' = b" by (simp add: b'_def)
      with keep False r show ?thesis by auto
    qed
  next
    case later
    from later(3) b' have lt: "snd (ps ! i) < snd b" "snd (ps ! i) < snd p" by simp_all
    with later r have "Suc i < length (p # ps) \<and> min_by_value b (p # ps) = (p # ps) ! Suc i
          \<and> snd ((p # ps) ! Suc i) < snd b
          \<and> (\<forall>q\<in>set (take (Suc i) (p # ps)). snd ((p # ps) ! Suc i) < snd q)
          \<and> (\<forall>q\<in>set (p # ps). snd ((p # ps) ! Suc i) \<le> snd q)" by auto
    then show ?thesis by blast
  qed
qed

lemma py_min_key_Cons:
  "\<exists>i<length (b # ps). py_min_key (b # ps) = Inr (fst ((b # ps) ! i))
           \<and> (\<forall>j<i. snd ((b # ps) ! i) < snd ((b # ps) ! j))
           \<and> (\<forall>j<length (b # ps). snd ((b # ps) ! i) \<le> snd ((b # ps) ! j))"
proof -
  have pm: "py_min_key (b # ps) = Inr (fst (min_by_value b ps))"
    by (simp add: py_min_key_def)
  from min_by_value_acc [of b ps] consider
    (keep) "min_by_value b ps = b" "\<forall>q\<in>set ps. snd b \<le> snd q"
  | (later) i where "i < length ps" "min_by_value b ps = ps ! i" "snd (ps ! i) < snd b"
      "\<forall>q\<in>set (take i ps). snd (ps ! i) < snd q" "\<forall>q\<in>set ps. snd (ps ! i) \<le> snd q"
    by blast
  then show ?thesis
  proof cases
    case keep
    have all: "\<forall>j<length (b # ps). snd ((b # ps) ! 0) \<le> snd ((b # ps) ! j)"
    proof (intro allI impI)
      fix j assume j: "j < length (b # ps)"
      show "snd ((b # ps) ! 0) \<le> snd ((b # ps) ! j)"
      proof (cases j)
        case 0
        then show ?thesis by simp
      next
        case (Suc j')
        with j have "ps ! j' \<in> set ps" by simp
        with keep(2) have "snd b \<le> snd (ps ! j')" by blast
        with Suc show ?thesis by simp
      qed
    qed
    have "py_min_key (b # ps) = Inr (fst ((b # ps) ! 0))"
      using pm keep(1) by simp
    moreover have "\<forall>j<0. snd ((b # ps) ! 0) < snd ((b # ps) ! j)" by simp
    moreover have "0 < length (b # ps)" by simp
    ultimately show ?thesis using all by blast
  next
    case later
    have before: "\<forall>j<Suc i. snd ((b # ps) ! Suc i) < snd ((b # ps) ! j)"
    proof (intro allI impI)
      fix j assume j: "j < Suc i"
      show "snd ((b # ps) ! Suc i) < snd ((b # ps) ! j)"
      proof (cases j)
        case 0
        with later(3) show ?thesis by simp
      next
        case (Suc j')
        with j have lt: "j' < i" by simp
        with later(1) have "j' < length (take i ps)" by simp
        then have "take i ps ! j' \<in> set (take i ps)" by (rule nth_mem)
        moreover have "take i ps ! j' = ps ! j'" using lt by simp
        ultimately have "ps ! j' \<in> set (take i ps)" by simp
        with later(4) have "snd (ps ! i) < snd (ps ! j')" by blast
        with Suc show ?thesis by simp
      qed
    qed
    have all: "\<forall>j<length (b # ps). snd ((b # ps) ! Suc i) \<le> snd ((b # ps) ! j)"
    proof (intro allI impI)
      fix j assume j: "j < length (b # ps)"
      show "snd ((b # ps) ! Suc i) \<le> snd ((b # ps) ! j)"
      proof (cases j)
        case 0
        with later(3) show ?thesis by simp
      next
        case (Suc j')
        with j have "ps ! j' \<in> set ps" by simp
        with later(5) have "snd (ps ! i) \<le> snd (ps ! j')" by blast
        with Suc show ?thesis by simp
      qed
    qed
    have "py_min_key (b # ps) = Inr (fst ((b # ps) ! Suc i))"
      using pm later(2) by simp
    moreover have "Suc i < length (b # ps)" using later(1) by simp
    ultimately show ?thesis using before all by blast
  qed
qed

lemma py_min_key_first_minimum:
  assumes "xs \<noteq> []"
  shows "\<exists>i<length xs. py_min_key xs = Inr (fst (xs ! i))
           \<and> (\<forall>j<i. snd (xs ! i) < snd (xs ! j)) \<and> (\<forall>j<length xs. snd (xs ! i) \<le> snd (xs ! j))"
proof -
  from assms obtain b ps where xs: "xs = b # ps" by (cases xs) auto
  show ?thesis unfolding xs by (rule py_min_key_Cons)
qed

lemma centroid_names_distinct: "distinct (map c_name (CENTROIDS fl))"
  by (simp add: CENTROIDS_def banqiao_def zhonghe_def yonghe_def tucheng_def xinzhuang_def
      songshan_def zhongshan_def wenshan_def)

lemma nearest_centroid_py_min_key:
  assumes "\<forall>c\<in>set (CENTROIDS fl). great_circle_distance fl la lo (c_lat c) (c_lon c) = Inr (D c)"
  shows "nearest_centroid fl la lo = py_min_key (map (\<lambda>c. (c_name c, D c)) (CENTROIDS fl))"
  using distances_of_distinct [OF assms centroid_names_distinct, of "[]"]
  by (simp add: nearest_centroid_def)

lemma nearest_centroid_raises:
  assumes "\<exists>c\<in>set (CENTROIDS fl). great_circle_distance fl la lo (c_lat c) (c_lon c) = Inl ValueError"
  shows "nearest_centroid fl la lo = Inl ValueError"
  using distances_of_raises [OF assms, of "[]"] by (simp add: nearest_centroid_def)

text \<open>
  The outcome of the resolver: a distance raises and so does the resolver, or every
  distance is computed and the resolver returns the first centroid of minimal distance.
\<close>

lemma nearest_centroid_outcome:
  "(nearest_centroid fl lat lon = Inl ValueError
      \<and> (\<exists>j<length (CENTROIDS fl).
            great_circle_distance fl lat lon (c_lat (CENTROIDS fl ! j)) (c_lon (CENTROIDS fl ! j))
              = Inl ValueError))
   \<or> (\<exists>i ds. i < length (CENTROIDS fl) \<and> length ds = length (CENTROIDS fl)
      \<and> (\<forall>j<length (CENTROIDS fl).
            great_circle_distance fl lat lon (c_lat (CENTROIDS fl ! j)) (c_lon (CENTROIDS fl ! j))
              = Inr (ds ! j))
      \<and> nearest_centroid fl lat lon = Inr (c_name (CENTROIDS fl ! i))
      \<and> (\<forall>j<length (CENTROIDS fl). ds ! i \<le> ds ! j)
      \<and> (\<forall>j<i. ds ! i < ds ! j))"
proof (cases "\<exists>c\<in>set (CENTROIDS fl).
    great_circle_distance fl lat lon (c_lat c) (c_lon c) = Inl ValueError")
  case True
  then have "nearest_centroid fl lat lon = Inl ValueError" by (rule nearest_centroid_raises)
  moreover from True obtain j where "j < length (CENTROIDS fl)"
    "great_circle_distance fl lat lon (c_lat (CENTROIDS fl ! j)) (c_lon (CENTROIDS fl ! j))
       = Inl ValueError"
    by (metis in_set_conv_nth)
  ultimately show ?thesis by blast
next
  case False
  define D where "D c = (case great_circle_distance fl lat lon (c_lat c) (c_lon c) of
      Inr d \<Rightarrow> d | Inl e \<Rightarrow> 0)" for c :: centroid
  have gcd: "great_circle_distance fl lat lon (c_lat c) (c_lon c) = Inr (D c)"
    if "c \<in> set (CENTROIDS fl)" for c
    using that False great_circle_distance_cases [of fl lat lon "c_lat c" "c_lon c"]
    by (auto simp: D_def)
  define xs where "xs = map (\<lambda>c. (c_name c, D c)) (CENTROIDS fl)"
  define ds where "ds = map D (CENTROIDS fl)"
  have ne: "xs \<noteq> []" by (simp add: xs_def CENTROIDS_def)
  have len: "length xs = length (CENTROIDS fl)" "length ds = length (CENTROIDS fl)"
    by (simp_all add: xs_def ds_def)
  have nth: "fst (xs ! j) = c_name (CENTROIDS fl ! j)" "snd (xs ! j) = ds ! j"
    if "j < length (CENTROIDS fl)" for j
    using that by (simp_all add: xs_def ds_def)
  have nc: "nearest_centroid fl lat lon = py_min_key xs"
    unfolding xs_def by (rule nearest_centroid_py_min_key) (simp add: gcd)
  from py_min_key_first_minimum [OF ne] obtain i where i: "i < length xs"
    "py_min_key xs = Inr (fst (xs ! i))" "\<forall>j<i. snd (xs ! i) < snd (xs ! j)"
    "\<forall>j<length xs. snd (xs ! i) \<le> snd (xs ! j)" by blast
  have i': "i < length (CENTROIDS fl)" using i(1) len by simp
  have a: "\<forall>j<length (CENTROIDS fl).
      great_circle_distance fl lat lon (c_lat (CENTROIDS fl ! j)) (c_lon (CENTROIDS fl ! j))
        = Inr (ds ! j)"
    by (simp add: gcd ds_def)
  have b: "nearest_centroid fl lat lon = Inr (c_name (CENTROIDS fl ! i))"
    using nc i(2) nth(1) [OF i'] by simp
  have c: "\<forall>j<length (CENTROIDS fl). ds ! i \<le> ds ! j"
  proof (intro allI impI)
    fix j assume j: "j < length (CENTROIDS fl)"
    with i(4) len have "snd (xs ! i) \<le> snd (xs ! j)" by simp
    then show "ds ! i \<le> ds ! j" using nth(2) [OF i'] nth(2) [OF j] by simp
  qed
  have d: "\<forall>j<i. ds ! i < ds ! j"
  proof (intro allI impI)
    fix j assume j: "j < i"
    with i' have j': "j < length (CENTROIDS fl)" by simp
    from i(3) j have "snd (xs ! i) < snd (xs ! j)" by simp
    then show "ds ! i < ds ! j" using nth(2) [OF i'] nth(2) [OF j'] by simp
  qed
  from i' len(2) a b c d show ?thesis by blast
qed

text \<open>
  Claim C4. Whenever the resolver returns, it returns the name of a centroid \<open>i\<close> of the
  registry whose distance is minimal among all centroids and strictly smaller than the
  distance of every centroid that stands before it in the registry: the nearest centroid,
  and among equidistant ones the first in the registry's order (\<open>ds\<close> lists the
  distances). The resolver returns unless the distance to a centroid raises
  \<^verbatim>\<open>ValueError\<close>; then the resolver raises it too.
\<close>

theorem nearest_centroid_first_minimum:
  "(nearest_centroid fl lat lon = Inl ValueError
      \<and> (\<exists>j<length (CENTROIDS fl).
            great_circle_distance fl lat lon (c_lat (CENTROIDS fl ! j)) (c_lon (CENTROIDS fl ! j))
              = Inl ValueError))
   \<or> (\<exists>i ds. i < length (CENTROIDS fl) \<and> length ds = length (CENTROIDS fl)
      \<and> (\<forall>j<length (CENTROIDS fl).
            great_circle_distance fl lat lon (c_lat (CENTROIDS fl ! j)) (c_lon (CENTROIDS fl ! j))
              = Inr (ds ! j))
      \<and> nearest_centroid fl lat lon = Inr (c_name (CENTROIDS fl ! i))
      \<and> (\<forall>j<length (CENTROIDS fl). ds ! i \<le> ds ! j)
      \<and> (\<forall>j<i. ds ! i < ds ! j))"
  by (rule nearest_centroid_outcome)

lemma nearest_centroid_exact_total:
  "\<exists>i<length (CENTROIDS exact). nearest_centroid exact lat lon = Inr (c_name (CENTROIDS exact ! i))"
proof -
  have "\<not> (\<exists>j<length (CENTROIDS exact).
      great_circle_distance exact lat lon (c_lat (CENTROIDS exact ! j)) (c_lon (CENTROIDS exact ! j))
        = Inl ValueError)"
    by (simp add: great_circle_distance_exact)
  with nearest_centroid_outcome [of exact lat lon] show ?thesis by blast
qed

lemma nearest_centroid_in_registry:
  "nearest_centroid fl lat lon = Inr n \<Longrightarrow> n \<in> c_name ` set (CENTROIDS fl)"
proof -
  assume r: "nearest_centroid fl lat lon = Inr n"
  with nearest_centroid_outcome [of fl lat lon] obtain i where
    "i < length (CENTROIDS fl)" "nearest_centroid fl lat lon = Inr (c_name (CENTROIDS fl ! i))"
    by auto
  with r show ?thesis by (metis Inr_inject imageI nth_mem)
qed

lemma nearest_centroid_at_banqiao: "nearest_centroid exact 25.0112 121.4637 = Inr banqiao"
proof -
  have c0: "c_lat (CENTROIDS exact ! 0) = 25.0112" "c_lon (CENTROIDS exact ! 0) = 121.4637"
    "c_name (CENTROIDS exact ! 0) = banqiao" "0 < length (CENTROIDS exact)"
    by (simp_all add: CENTROIDS_def exact_def)
  have no: "\<not> (\<exists>j<length (CENTROIDS exact).
      great_circle_distance exact 25.0112 121.4637 (c_lat (CENTROIDS exact ! j))
        (c_lon (CENTROIDS exact ! j)) = Inl ValueError)"
    by (simp add: great_circle_distance_exact)
  with nearest_centroid_outcome [of exact "25.0112" "121.4637"] obtain i ds where
    i: "i < length (CENTROIDS exact)"
    and ds: "\<forall>j<length (CENTROIDS exact).
      great_circle_distance exact 25.0112 121.4637 (c_lat (CENTROIDS exact ! j))
        (c_lon (CENTROIDS exact ! j)) = Inr (ds ! j)"
    and res: "nearest_centroid exact 25.0112 121.4637 = Inr (c_name (CENTROIDS exact ! i))"
    and first: "\<forall>j<i. ds ! i < ds ! j"
    by blast
  from ds c0 have "great_circle_distance exact 25.0112 121.4637 25.0112 121.4637 = Inr (ds ! 0)"
    by (metis (no_types))
  then have d0: "ds ! 0 = 0"
    by (simp add: great_circle_distance_self [OF exact_sign exact_one])
  from ds i have "0 \<le> ds ! i"
    using great_circle_distance_exact_nonneg by blast
  have "i = 0"
  proof (rule ccontr)
    assume "i \<noteq> 0"
    then have "0 < i" by simp
    with first have "ds ! i < ds ! 0" by blast
    with d0 \<open>0 \<le> ds ! i\<close> show False by simp
  qed
  with res c0 show ?thesis by simp
qed

text \<open>
  In exact arithmetic, at the coordinate of the first centroid (Banqiao): no distance
  raises, the first centroid is at distance zero, and the theorem leaves no other index.
\<close>

theorem nearest_centroid_first_minimum_witness:
  "nearest_centroid exact 25.0112 121.4637 = Inr banqiao"
proof -
  have c0: "c_lat (CENTROIDS exact ! 0) = 25.0112" "c_lon (CENTROIDS exact ! 0) = 121.4637"
    "c_name (CENTROIDS exact ! 0) = banqiao" "0 < length (CENTROIDS exact)"
    by (simp_all add: CENTROIDS_def exact_def)
  have no: "\<not> (\<exists>j<length (CENTROIDS exact).
      great_circle_distance exact 25.0112 121.4637 (c_lat (CENTROIDS exact ! j))
        (c_lon (CENTROIDS exact ! j)) = Inl ValueError)"
    by (simp add: great_circle_distance_exact)
  with nearest_centroid_first_minimum [of exact "25.0112" "121.4637"] obtain i ds where
    i: "i < length (CENTROIDS exact)"
    and ds: "\<forall>j<length (CENTROIDS exact).
      great_circle_distance exact 25.0112 121.4637 (c_lat (CENTROIDS exact ! j))
        (c_lon (CENTROIDS exact ! j)) = Inr (ds ! j)"
    and res: "nearest_centroid exact 25.0112 121.4637 = Inr (c_name (CENTROIDS exact ! i))"
    and first: "\<forall>j<i. ds ! i < ds ! j"
    by blast
  from ds c0 have "great_circle_distance exact 25.0112 121.4637 25.0112 121.4637 = Inr (ds ! 0)"
    by (metis (no_types))
  then have d0: "ds ! 0 = 0"
    by (simp add: great_circle_distance_self [OF exact_sign exact_one])
  from ds i have "0 \<le> ds ! i"
    using great_circle_distance_exact_nonneg by blast
  have "i = 0"
  proof (rule ccontr)
    assume "i \<noteq> 0"
    then have "0 < i" by simp
    with first have "ds ! i < ds ! 0" by blast
    with d0 \<open>0 \<le> ds ! i\<close> show False by simp
  qed
  with res c0 show ?thesis by simp
qed

section \<open>Properties of the coordinate extractor\<close>

lemma float_of_token_cases:
  "float_of_token fl s = Inl ValueError \<or> (\<exists>x. float_of_token fl s = Inr x)"
  by (auto simp: float_of_token_def signed_decimal_def unsigned_decimal_def Let_def map_sum_def
      split: list.splits sum.splits)

text \<open>
  Claim C10. The claim says that \<open>extract_coords\<close> returns, for every input string,
  either both coordinates or neither. Every pair it returns is of this kind: both
  components absent or both present, never a latitude without a longitude or a longitude
  without a latitude. But it does not return for every input string: a call ends in one
  of three ways, the third being that it raises \<^verbatim>\<open>ValueError\<close> and returns no pair at
  all, as on the string \<^verbatim>\<open>!3d1.2.3!4d5\<close>, whose first token is not a number.
\<close>

theorem extract_coords_paired:
  "(extract_coords fl url = Inl ValueError \<or> extract_coords fl url = Inr (None, None)
     \<or> (\<exists>la lo. extract_coords fl url = Inr (Some la, Some lo)))
   \<and> extract_coords fl (asc ''!3d1.2.3!4d5'') = Inl ValueError"
proof
  show "extract_coords fl url = Inl ValueError \<or> extract_coords fl url = Inr (None, None)
     \<or> (\<exists>la lo. extract_coords fl url = Inr (Some la, Some lo))"
  proof (cases "re_search url")
    case None
    then show ?thesis by (simp add: extract_coords_def)
  next
    case (Some m)
    obtain g1 g2 where m: "m = (g1, g2)" by (cases m)
    from float_of_token_cases [of fl g1] float_of_token_cases [of fl g2] show ?thesis
      by (auto simp: extract_coords_def Some m)
  qed
  show "extract_coords fl (asc ''!3d1.2.3!4d5'') = Inl ValueError"
    by (simp add: extract_coords_def asc_def match_here_def starts_with_def coord_char_def
        float_of_token_def signed_decimal_def unsigned_decimal_def is_digit_def digits_val_def)
qed

text \<open>
  Claim C3. The claim says that the extractor never raises and reports "no coordinate
  found" when the matched tokens are not numbers. The pattern accepts any run of digits,
  dots and signs, and the conversion of such a run is not guarded: on the string
  \<^verbatim>\<open>!3d1.2.3!4d5\<close> the pattern matches with the groups \<^verbatim>\<open>1.2.3\<close> and \<^verbatim>\<open>5\<close>, and
  \<^verbatim>\<open>float("1.2.3")\<close> raises \<^verbatim>\<open>ValueError\<close>, which leaves \<open>extract_coords\<close>.
\<close>

theorem extract_coords_raises_on_unparsable_token:
  "re_search (asc ''!3d1.2.3!4d5'') = Some (asc ''1.2.3'', asc ''5'')
     \<and> extract_coords fl (asc ''!3d1.2.3!4d5'') = Inl ValueError"
  by (simp add: extract_coords_def asc_def match_here_def starts_with_def coord_char_def
      float_of_token_def signed_decimal_def unsigned_decimal_def is_digit_def digits_val_def)

text \<open>
  A match that starts inside a prefix cannot reach into a marker that follows the prefix:
  the marker begins with \<^verbatim>\<open>!3\<close>, and \<^verbatim>\<open>!\<close> ends a group, while the pattern wants
  \<^verbatim>\<open>!4\<close> after its first group. So a prefix without a match stays without one.
\<close>

lemma asc_3d: "asc ''!3d'' = [33, 51, 100]" and asc_4d: "asc ''!4d'' = [33, 52, 100]"
  by (simp_all add: asc_def)

lemma not_coord_char_bang: "\<not> coord_char 33"
  by (simp add: coord_char_def)

lemma takeWhile_before_stop:
  "\<not> P y \<Longrightarrow> takeWhile P (xs @ y # ys) = takeWhile P xs"
  by (induction xs) auto

lemma dropWhile_before_stop:
  "\<not> P y \<Longrightarrow> dropWhile P (xs @ y # ys) = dropWhile P xs @ y # ys"
  by (induction xs) auto

lemma starts_with3_append:
  assumes "x \<noteq> []" and "starts_with [q1, q2, 100] (x @ 33 # 51 # rest)"
  shows "starts_with [q1, q2, 100] x"
proof -
  from assms(1) obtain a x' where x: "x = a # x'" by (cases x) auto
  show ?thesis
  proof (cases x')
    case Nil
    with x assms(2) show ?thesis by (simp add: starts_with_def)
  next
    case (Cons b x'')
    show ?thesis
    proof (cases x'')
      case Nil
      with x Cons assms(2) show ?thesis by (simp add: starts_with_def)
    next
      case (Cons c x''')
      with x \<open>x' = b # x''\<close> assms(2) show ?thesis by (simp add: starts_with_def)
    qed
  qed
qed

lemma starts_with3_drop:
  "starts_with [q1, q2, q3] x \<Longrightarrow> x = q1 # q2 # q3 # drop 3 x"
  by (auto simp: starts_with_iff)

lemma match_here_extend:
  assumes none: "match_here x = None" and ne: "x \<noteq> []"
  shows "match_here (x @ 33 # 51 # rest) = None"
proof (cases "starts_with [33, 51, 100] x")
  case False
  with starts_with3_append [OF ne] have "\<not> starts_with [33, 51, 100] (x @ 33 # 51 # rest)"
    by blast
  then show ?thesis by (simp add: match_here_def asc_3d)
next
  case True
  define x1 where "x1 = drop 3 x"
  from starts_with3_drop [OF True] have x: "x = 33 # 51 # 100 # x1" by (simp add: x1_def)
  define g1 where "g1 = takeWhile coord_char x1"
  define x2 where "x2 = dropWhile coord_char x1"
  have tw: "takeWhile coord_char (x1 @ 33 # 51 # rest) = g1"
    unfolding g1_def using not_coord_char_bang by (rule takeWhile_before_stop)
  have dw: "dropWhile coord_char (x1 @ 33 # 51 # rest) = x2 @ 33 # 51 # rest"
    unfolding x2_def using not_coord_char_bang by (rule dropWhile_before_stop)
  have full: "match_here (x @ 33 # 51 # rest) =
      (if g1 = [] then None
       else if starts_with [33, 52, 100] (x2 @ 33 # 51 # rest) then
         (let g2 = takeWhile coord_char (drop 3 (x2 @ 33 # 51 # rest)) in
          if g2 = [] then None else Some (g1, g2))
       else None)"
    by (simp add: match_here_def asc_3d asc_4d x starts_with_def tw dw)
  have part: "match_here x =
      (if g1 = [] then None
       else if starts_with [33, 52, 100] x2 then
         (let g2 = takeWhile coord_char (drop 3 x2) in
          if g2 = [] then None else Some (g1, g2))
       else None)"
    unfolding g1_def x2_def by (simp add: match_here_def asc_3d asc_4d x starts_with_def)
  show ?thesis
  proof (cases "g1 = []")
    case True
    with full show ?thesis by simp
  next
    case g1: False
    show ?thesis
    proof (cases "x2 = []")
      case True
      then have "\<not> starts_with [33, 52, 100] (x2 @ 33 # 51 # rest)"
        by (simp add: starts_with_def)
      with full show ?thesis by simp
    next
      case x2: False
      show ?thesis
      proof (cases "starts_with [33, 52, 100] x2")
        case False
        with starts_with3_append [OF x2] have "\<not> starts_with [33, 52, 100] (x2 @ 33 # 51 # rest)"
          by blast
        with full show ?thesis by simp
      next
        case True
        define x3 where "x3 = drop 3 x2"
        from starts_with3_drop [OF True] have x2': "x2 = 33 # 52 # 100 # x3" by (simp add: x3_def)
        from none part g1 True have "takeWhile coord_char x3 = []"
          by (simp add: x3_def Let_def split: if_splits)
        moreover have "takeWhile coord_char (x3 @ 33 # 51 # rest) = takeWhile coord_char x3"
          using not_coord_char_bang by (rule takeWhile_before_stop)
        ultimately have "takeWhile coord_char (drop 3 (x2 @ 33 # 51 # rest)) = []"
          by (simp add: x2')
        with full g1 show ?thesis by (simp add: Let_def)
      qed
    qed
  qed
qed

lemma re_search_skip:
  "re_search pre = None \<Longrightarrow> re_search (pre @ 33 # 51 # rest) = re_search (33 # 51 # rest)"
proof (induction pre)
  case Nil
  then show ?case by simp
next
  case (Cons c cs)
  from Cons.prems have m: "match_here (c # cs) = None" and r: "re_search cs = None"
    by (auto split: option.splits)
  from match_here_extend [OF m] have "match_here ((c # cs) @ 33 # 51 # rest) = None" by simp
  with Cons.IH [OF r] show ?case by simp
qed

lemma takeWhile_all_then:
  "list_all P g \<Longrightarrow> post = [] \<or> \<not> P (hd post) \<Longrightarrow> takeWhile P (g @ post) = g"
  by (induction g) (auto simp: takeWhile_eq_Nil_iff)

lemma dropWhile_all_then:
  "list_all P g \<Longrightarrow> dropWhile P (g @ post) = dropWhile P post"
  by (induction g) auto

lemma match_here_marker:
  assumes "g1 \<noteq> []" "list_all coord_char g1" "g2 \<noteq> []" "list_all coord_char g2"
    and "post = [] \<or> \<not> coord_char (hd post)"
  shows "match_here (asc ''!3d'' @ g1 @ asc ''!4d'' @ g2 @ post) = Some (g1, g2)"
proof -
  have a: "takeWhile coord_char (g1 @ 33 # 52 # 100 # g2 @ post) = g1"
    using assms(2) not_coord_char_bang by (intro takeWhile_all_then) simp_all
  have b: "dropWhile coord_char (g1 @ 33 # 52 # 100 # g2 @ post) = 33 # 52 # 100 # g2 @ post"
    using assms(2) not_coord_char_bang by (simp add: dropWhile_all_then)
  have c: "takeWhile coord_char (g2 @ post) = g2"
    using assms(4,5) by (rule takeWhile_all_then)
  show ?thesis
    using assms(1,3) by (simp add: match_here_def asc_3d asc_4d starts_with_def a b c)
qed

lemma re_search_leftmost:
  assumes "re_search pre = None"
    and "g1 \<noteq> []" "list_all coord_char g1" "g2 \<noteq> []" "list_all coord_char g2"
    and "post = [] \<or> \<not> coord_char (hd post)"
  shows "re_search (pre @ asc ''!3d'' @ g1 @ asc ''!4d'' @ g2 @ post) = Some (g1, g2)"
proof -
  have "re_search (pre @ 33 # 51 # 100 # g1 @ asc ''!4d'' @ g2 @ post)
          = re_search (33 # 51 # 100 # g1 @ asc ''!4d'' @ g2 @ post)"
    using assms(1) by (rule re_search_skip)
  moreover have "match_here (33 # 51 # 100 # g1 @ asc ''!4d'' @ g2 @ post) = Some (g1, g2)"
    using match_here_marker [OF assms(2-6)] by (simp add: asc_3d)
  ultimately show ?thesis by (simp add: asc_3d)
qed

lemma match_here_groups:
  "match_here s = Some (g1, g2) \<Longrightarrow>
     g1 \<noteq> [] \<and> list_all coord_char g1 \<and> g2 \<noteq> [] \<and> list_all coord_char g2"
  by (auto simp: match_here_def Let_def list_all_iff split: if_splits dest: set_takeWhileD)

lemma re_search_groups:
  "re_search s = Some (g1, g2) \<Longrightarrow>
     g1 \<noteq> [] \<and> list_all coord_char g1 \<and> g2 \<noteq> [] \<and> list_all coord_char g2"
proof (induction s)
  case Nil
  then show ?case by simp
next
  case (Cons c cs)
  show ?case
  proof (cases "match_here (c # cs)")
    case None
    with Cons show ?thesis by simp
  next
    case (Some m)
    with Cons.prems have "match_here (c # cs) = Some (g1, g2)" by simp
    then show ?thesis by (rule match_here_groups)
  qed
qed

lemma float_25_0112: "float_of_token fl (asc ''25.0112'') = Inr (fl 25.0112)"
  by (simp add: asc_def float_of_token_def signed_decimal_def unsigned_decimal_def is_digit_def digits_val_def)

lemma float_121_4637: "float_of_token fl (asc ''121.4637'') = Inr (fl 121.4637)"
  by (simp add: asc_def float_of_token_def signed_decimal_def unsigned_decimal_def is_digit_def digits_val_def)

lemma marker_split:
  "asc ''!3d25.0112!4d121.4637'' = asc ''!3d'' @ asc ''25.0112'' @ asc ''!4d'' @ asc ''121.4637''"
  by (simp add: asc_def)

lemma marker_tokens:
  "asc ''25.0112'' \<noteq> []" "list_all coord_char (asc ''25.0112'')"
  "asc ''121.4637'' \<noteq> []" "list_all coord_char (asc ''121.4637'')"
  by (simp_all add: asc_def coord_char_def)

text \<open>
  Claim C5, as amended. When the marker \<^verbatim>\<open>!3d25.0112!4d121.4637\<close> is the leftmost match
  of the pattern in the URL (no match in the text \<open>pre\<close> before it) and is not continued
  (the text \<open>post\<close> after it is empty or starts with a character outside \<^verbatim>\<open>[0-9.+-]\<close>),
  the extractor returns exactly \<open>(25.0112, 121.4637)\<close>. In general the leftmost match
  alone determines the result: with two tokens \<open>g1\<close> and \<open>g2\<close> of the class in its
  groups, the search returns these tokens, and the extractor returns what it returns on
  the marker alone, whatever follows in \<open>post\<close>, later markers included.
\<close>

theorem extract_coords_leftmost_marker:
  "(re_search pre = None \<and> (post = [] \<or> \<not> coord_char (hd post)) \<longrightarrow>
      extract_coords fl (pre @ asc ''!3d25.0112!4d121.4637'' @ post)
        = Inr (Some (fl 25.0112), Some (fl 121.4637)))
   \<and> (re_search pre = None \<and> g1 \<noteq> [] \<and> list_all coord_char g1 \<and> g2 \<noteq> []
        \<and> list_all coord_char g2 \<and> (post = [] \<or> \<not> coord_char (hd post)) \<longrightarrow>
      re_search (pre @ asc ''!3d'' @ g1 @ asc ''!4d'' @ g2 @ post) = Some (g1, g2)
      \<and> extract_coords fl (pre @ asc ''!3d'' @ g1 @ asc ''!4d'' @ g2 @ post)
          = extract_coords fl (asc ''!3d'' @ g1 @ asc ''!4d'' @ g2))"
proof -
  have first: "extract_coords fl (pre @ asc ''!3d25.0112!4d121.4637'' @ post)
        = Inr (Some (fl 25.0112), Some (fl 121.4637))"
    if h: "re_search pre = None \<and> (post = [] \<or> \<not> coord_char (hd post))"
  proof -
    from h have "re_search (pre @ asc ''!3d'' @ asc ''25.0112'' @ asc ''!4d'' @ asc ''121.4637'' @ post)
        = Some (asc ''25.0112'', asc ''121.4637'')"
      by (intro re_search_leftmost marker_tokens) simp_all
    then show ?thesis
      by (simp add: extract_coords_def marker_split float_25_0112 float_121_4637)
  qed
  have g: "re_search (pre @ asc ''!3d'' @ g1 @ asc ''!4d'' @ g2 @ post) = Some (g1, g2)"
    if h: "re_search pre = None \<and> g1 \<noteq> [] \<and> list_all coord_char g1 \<and> g2 \<noteq> []
        \<and> list_all coord_char g2 \<and> (post = [] \<or> \<not> coord_char (hd post))"
    using h by (intro re_search_leftmost) simp_all
  have e: "extract_coords fl (pre @ asc ''!3d'' @ g1 @ asc ''!4d'' @ g2 @ post)
          = extract_coords fl (asc ''!3d'' @ g1 @ asc ''!4d'' @ g2)"
    if h: "re_search pre = None \<and> g1 \<noteq> [] \<and> list_all coord_char g1 \<and> g2 \<noteq> []
        \<and> list_all coord_char g2 \<and> (post = [] \<or> \<not> coord_char (hd post))"
  proof -
    have "re_search ([] @ asc ''!3d'' @ g1 @ asc ''!4d'' @ g2 @ []) = Some (g1, g2)"
      using h by (intro re_search_leftmost) simp_all
    with g [OF h] show ?thesis by (simp add: extract_coords_def)
  qed
  from first g e show ?thesis by (intro conjI impI)
qed

text \<open>
  A URL with the marker after a path that has no match, followed by \<^verbatim>\<open>!16s\<close> and a
  second marker \<^verbatim>\<open>!3d1.5!4d2.5\<close>, which is ignored.
\<close>

theorem extract_coords_leftmost_marker_witness:
  "extract_coords exact (asc ''https://maps.example/place/shop/data=!4m2!3d25.0112!4d121.4637!16s!3d1.5!4d2.5'')
     = Inr (Some 25.0112, Some 121.4637)"
proof -
  let ?pre = "asc ''https://maps.example/place/shop/data=!4m2''"
  let ?post = "asc ''!16s!3d1.5!4d2.5''"
  have url: "asc ''https://maps.example/place/shop/data=!4m2!3d25.0112!4d121.4637!16s!3d1.5!4d2.5''
      = ?pre @ asc ''!3d25.0112!4d121.4637'' @ ?post"
    by (simp add: asc_def)
  have pre: "re_search ?pre = None"
    by (simp add: asc_def match_here_def starts_with_def)
  have post: "?post = [] \<or> \<not> coord_char (hd ?post)"
    by (simp add: asc_def coord_char_def)
  have later: "re_search ?post = Some (asc ''1.5'', asc ''2.5'')"
    by (simp add: asc_def match_here_def starts_with_def coord_char_def)
  from extract_coords_leftmost_marker [of ?pre ?post exact] pre post
  have "extract_coords exact (?pre @ asc ''!3d25.0112!4d121.4637'' @ ?post)
      = Inr (Some (exact 25.0112), Some (exact 121.4637))" by blast
  then have "extract_coords exact (?pre @ asc ''!3d25.0112!4d121.4637'' @ ?post)
      = Inr (Some 25.0112, Some 121.4637)" by (simp only: exact_def)
  then show ?thesis by (simp only: url)
qed

text \<open>
  Claim C5 as stated ("any URL string containing the marker") fails in two ways: when
  another marker stands before it, the earlier one is returned; when a further digit
  follows it, the greedy second group takes the digit in.
\<close>

theorem extract_coords_marker_counterexample:
  "str_in (asc ''!3d25.0112!4d121.4637'') (asc ''!3d1!4d2!3d25.0112!4d121.4637'')
   \<and> re_search (asc ''!3d1!4d2!3d25.0112!4d121.4637'') = Some (asc ''1'', asc ''2'')
   \<and> extract_coords exact (asc ''!3d1!4d2!3d25.0112!4d121.4637'') = Inr (Some 1, Some 2)
   \<and> str_in (asc ''!3d25.0112!4d121.4637'') (asc ''!3d25.0112!4d121.46375'')
   \<and> re_search (asc ''!3d25.0112!4d121.46375'') = Some (asc ''25.0112'', asc ''121.46375'')
   \<and> extract_coords exact (asc ''!3d25.0112!4d121.46375'') = Inr (Some 25.0112, Some 121.46375)
   \<and> (1 :: real) \<noteq> 25.0112 \<and> (121.46375 :: real) \<noteq> 121.4637"
  by (simp add: extract_coords_def asc_def match_here_def starts_with_def coord_char_def
      float_of_token_def signed_decimal_def unsigned_decimal_def is_digit_def digits_val_def
      exact_def)

section \<open>Properties of the classifier\<close>

lemmas district_defs = banqiao_def zhonghe_def yonghe_def tucheng_def xinzhuang_def
  songshan_def zhongshan_def wenshan_def

lemma known_districts_eq:
  "known_districts = {banqiao, zhonghe, yonghe, tucheng, xinzhuang, songshan, zhongshan, wenshan}"
  by (auto simp: known_districts_def DISTRICT_KEYWORDS_def ROAD_TO_DISTRICT_def
      MANUAL_OVERRIDES_def CENTROIDS_def)

lemma known_districts_nonempty: "d \<in> known_districts \<Longrightarrow> d \<noteq> []"
  by (auto simp: known_districts_eq district_defs)

lemma unresolved_not_known: "unresolved \<notin> known_districts"
  by (simp add: known_districts_eq district_defs unresolved_def)

lemma centroid_names: "c_name ` set (CENTROIDS fl) = c_name ` set (CENTROIDS exact)"
  by (simp add: CENTROIDS_def)

lemma nearest_centroid_known:
  "nearest_centroid fl la lo = Inr d \<Longrightarrow> d \<in> known_districts"
proof -
  assume "nearest_centroid fl la lo = Inr d"
  then have "d \<in> c_name ` set (CENTROIDS fl)" by (rule nearest_centroid_in_registry)
  then have "d \<in> c_name ` set (CENTROIDS exact)" by (simp only: centroid_names [of fl])
  then show ?thesis unfolding known_districts_def by blast
qed

lemma nearest_centroid_cases:
  "nearest_centroid fl la lo = Inl ValueError \<or> (\<exists>d. nearest_centroid fl la lo = Inr d)"
  using nearest_centroid_outcome [of fl la lo] by blast

lemma infer_district_keyword:
  "first_match DISTRICT_KEYWORDS (combined name address url) = Some d \<Longrightarrow>
     infer_district fl name address url lat lon = Inr d"
  by (simp add: infer_district_def)

lemma infer_district_road:
  "first_match DISTRICT_KEYWORDS (combined name address url) = None \<Longrightarrow>
   first_match ROAD_TO_DISTRICT address = Some d \<Longrightarrow>
     infer_district fl name address url lat lon = Inr d"
  by (simp add: infer_district_def)

lemma infer_district_override:
  "first_match DISTRICT_KEYWORDS (combined name address url) = None \<Longrightarrow>
   first_match ROAD_TO_DISTRICT address = None \<Longrightarrow>
   map_of MANUAL_OVERRIDES name = Some d \<Longrightarrow>
     infer_district fl name address url lat lon = Inr d"
  by (simp add: infer_district_def)

lemma infer_district_fallback:
  "first_match DISTRICT_KEYWORDS (combined name address url) = None \<Longrightarrow>
   first_match ROAD_TO_DISTRICT address = None \<Longrightarrow>
   map_of MANUAL_OVERRIDES name = None \<Longrightarrow>
     infer_district fl name address url lat lon =
       (case (lat, lon) of (Some la, Some lo) \<Rightarrow> nearest_centroid fl la lo | _ \<Rightarrow> Inr unresolved)"
  by (simp add: infer_district_def)

lemma first_match_hit:
  "\<exists>k\<in>fst ` set T. str_in k s \<Longrightarrow> \<exists>d. first_match T s = Some d"
  using first_match_None_iff [of T s] by (cases "first_match T s") auto

lemma nearest_centroid_raises_iff:
  "nearest_centroid fl la lo = Inl e \<longleftrightarrow>
     e = ValueError
     \<and> (\<exists>c\<in>set (CENTROIDS fl). haversine_term fl la lo (c_lat c) (c_lon c) < 0
            \<or> fl (1 - haversine_term fl la lo (c_lat c) (c_lon c)) < 0)"
proof
  assume l: "nearest_centroid fl la lo = Inl e"
  with nearest_centroid_outcome [of fl la lo] obtain j where
    e: "e = ValueError" and j: "j < length (CENTROIDS fl)"
    and r: "great_circle_distance fl la lo (c_lat (CENTROIDS fl ! j)) (c_lon (CENTROIDS fl ! j))
          = Inl ValueError"
    by auto
  from r have "haversine_term fl la lo (c_lat (CENTROIDS fl ! j)) (c_lon (CENTROIDS fl ! j)) < 0
      \<or> fl (1 - haversine_term fl la lo (c_lat (CENTROIDS fl ! j)) (c_lon (CENTROIDS fl ! j))) < 0"
    by (simp add: great_circle_distance_raises_iff)
  moreover from j have "CENTROIDS fl ! j \<in> set (CENTROIDS fl)" by (rule nth_mem)
  ultimately show "e = ValueError
     \<and> (\<exists>c\<in>set (CENTROIDS fl). haversine_term fl la lo (c_lat c) (c_lon c) < 0
            \<or> fl (1 - haversine_term fl la lo (c_lat c) (c_lon c)) < 0)"
    using e by blast
next
  assume r: "e = ValueError
     \<and> (\<exists>c\<in>set (CENTROIDS fl). haversine_term fl la lo (c_lat c) (c_lon c) < 0
            \<or> fl (1 - haversine_term fl la lo (c_lat c) (c_lon c)) < 0)"
  then obtain c where "c \<in> set (CENTROIDS fl)"
    "great_circle_distance fl la lo (c_lat c) (c_lon c) = Inl ValueError"
    by (auto simp: great_circle_distance_raises_iff)
  then have "nearest_centroid fl la lo = Inl ValueError"
    using nearest_centroid_raises by blast
  with r show "nearest_centroid fl la lo = Inl e" by simp
qed

lemma infer_district_label:
  "infer_district fl name address url lat lon = Inl ValueError
   \<or> (\<exists>d. infer_district fl name address url lat lon = Inr d
         \<and> (d \<in> known_districts \<or> d = unresolved) \<and> d \<noteq> [])"
proof -
  have ok: "\<exists>d'. Inr d = (Inr d' :: py_error + ustr) \<and> (d' \<in> known_districts \<or> d' = unresolved) \<and> d' \<noteq> []"
    if "d \<in> known_districts" for d
    using that known_districts_nonempty by blast
  show ?thesis
  proof (cases "first_match DISTRICT_KEYWORDS (combined name address url)")
    case (Some d)
    then have "d \<in> known_districts"
      unfolding known_districts_def using first_match_in by blast
    with Some ok show ?thesis by (simp add: infer_district_def)
  next
    case kw: None
    show ?thesis
    proof (cases "first_match ROAD_TO_DISTRICT address")
      case (Some d)
      then have "d \<in> known_districts"
        unfolding known_districts_def using first_match_in by blast
      with kw Some ok show ?thesis by (simp add: infer_district_def)
    next
      case road: None
      show ?thesis
      proof (cases "map_of MANUAL_OVERRIDES name")
        case (Some d)
        then have "(name, d) \<in> set MANUAL_OVERRIDES" by (rule map_of_SomeD)
        then have "d \<in> known_districts"
          unfolding known_districts_def by force
        with kw road Some ok show ?thesis by (simp add: infer_district_def)
      next
        case ov: None
        show ?thesis
        proof (cases "\<exists>la lo. lat = Some la \<and> lon = Some lo")
          case True
          then obtain la lo where ll: "lat = Some la" "lon = Some lo" by blast
          have eq: "infer_district fl name address url lat lon = nearest_centroid fl la lo"
            using kw road ov ll by (simp add: infer_district_def)
          from nearest_centroid_cases [of fl la lo] show ?thesis
          proof
            assume "nearest_centroid fl la lo = Inl ValueError"
            with eq show ?thesis by simp
          next
            assume "\<exists>d. nearest_centroid fl la lo = Inr d"
            then obtain d where d: "nearest_centroid fl la lo = Inr d" ..
            then have "d \<in> known_districts" by (rule nearest_centroid_known)
            with eq d ok show ?thesis by simp
          qed
        next
          case False
          then have "infer_district fl name address url lat lon = Inr unresolved"
            using kw road ov by (auto simp: infer_district_def split: option.splits)
          then show ?thesis by (simp add: unresolved_def)
        qed
      qed
    qed
  qed
qed

lemma infer_district_raises:
  "infer_district fl name address url lat lon = Inl e \<longleftrightarrow>
     e = ValueError
     \<and> first_match DISTRICT_KEYWORDS (combined name address url) = None
     \<and> first_match ROAD_TO_DISTRICT address = None
     \<and> map_of MANUAL_OVERRIDES name = None
     \<and> (\<exists>la lo. lat = Some la \<and> lon = Some lo
          \<and> (\<exists>c\<in>set (CENTROIDS fl). haversine_term fl la lo (c_lat c) (c_lon c) < 0
                \<or> fl (1 - haversine_term fl la lo (c_lat c) (c_lon c)) < 0))"
proof (cases "first_match DISTRICT_KEYWORDS (combined name address url)")
  case (Some d)
  then show ?thesis by (simp add: infer_district_def)
next
  case kw: None
  show ?thesis
  proof (cases "first_match ROAD_TO_DISTRICT address")
    case (Some d)
    with kw show ?thesis by (simp add: infer_district_def)
  next
    case road: None
    show ?thesis
    proof (cases "map_of MANUAL_OVERRIDES name")
      case (Some d)
      with kw road show ?thesis by (simp add: infer_district_def)
    next
      case ov: None
      show ?thesis
      proof (cases "\<exists>la lo. lat = Some la \<and> lon = Some lo")
        case True
        then obtain la lo where ll: "lat = Some la" "lon = Some lo" by blast
        have eq: "infer_district fl name address url lat lon = nearest_centroid fl la lo"
          using kw road ov ll by (simp add: infer_district_def)
        show ?thesis
          unfolding eq nearest_centroid_raises_iff using kw road ov ll by simp
      next
        case False
        then have "infer_district fl name address url lat lon = Inr unresolved"
          using kw road ov by (auto simp: infer_district_def split: option.splits)
        with False show ?thesis by auto
      qed
    qed
  qed
qed

lemma infer_district_exact_total:
  "\<exists>d. infer_district exact name address url lat lon = Inr d"
proof -
  have "infer_district exact name address url lat lon \<noteq> Inl ValueError"
  proof
    assume "infer_district exact name address url lat lon = Inl ValueError"
    then obtain la lo c where "c \<in> set (CENTROIDS exact)"
      "haversine_term exact la lo (c_lat c) (c_lon c) < 0
         \<or> exact (1 - haversine_term exact la lo (c_lat c) (c_lon c)) < 0"
      unfolding infer_district_raises by blast
    with haversine_term_bounds [of la lo "c_lat c" "c_lon c"] show False
      by (simp add: exact_def)
  qed
  with infer_district_label [of exact name address url lat lon] show ?thesis by blast
qed

text \<open>
  Claim C2. The classifier returns exactly one label, and every label it returns is one
  of the known district names (a value of the keyword, road or override table or a
  centroid name) or the sentinel, never the empty string; the sentinel is none of the
  known names. But the classifier is not total: on finite coordinates it raises
  \<^verbatim>\<open>ValueError\<close> exactly when
  no table matches, both coordinates are present, and for some centroid the rounded
  haversine term \<open>a\<close> is negative or the rounded \<open>1 - a\<close> is negative, so that
  \<^verbatim>\<open>math.sqrt\<close> gets a negative argument. In exact arithmetic \<open>0 \<le> a \<le> 1\<close> and the
  classifier never raises; the exception is an effect of rounding that the source does
  not guard against (by clamping \<open>a\<close> to the interval).
\<close>

theorem infer_district_raises_iff:
  "(infer_district fl name address url lat lon = Inl e \<longleftrightarrow>
      e = ValueError
      \<and> first_match DISTRICT_KEYWORDS (combined name address url) = None
      \<and> first_match ROAD_TO_DISTRICT address = None
      \<and> map_of MANUAL_OVERRIDES name = None
      \<and> (\<exists>la lo. lat = Some la \<and> lon = Some lo
           \<and> (\<exists>c\<in>set (CENTROIDS fl). haversine_term fl la lo (c_lat c) (c_lon c) < 0
                 \<or> fl (1 - haversine_term fl la lo (c_lat c) (c_lon c)) < 0)))
   \<and> (infer_district fl name address url lat lon = Inl ValueError
       \<or> (\<exists>d. infer_district fl name address url lat lon = Inr d
             \<and> (d \<in> known_districts \<or> d = unresolved) \<and> d \<noteq> []))
   \<and> (\<exists>d. infer_district exact name address url lat lon = Inr d)
   \<and> unresolved \<notin> known_districts"
  using infer_district_raises [of fl name address url lat lon e]
    infer_district_label [of fl name address url lat lon]
    infer_district_exact_total [of name address url lat lon] unresolved_not_known
  by (intro conjI)

lemma override_keys_distinct: "distinct (map fst MANUAL_OVERRIDES)"
  by (simp add: MANUAL_OVERRIDES_def)

lemma combined_eq: "combined name address url = name @ [32] @ address @ [32] @ url"
  by (simp add: combined_def asc_def)

lemma infer_district_stages:
  "((\<exists>k\<in>fst ` set DISTRICT_KEYWORDS. str_in k (combined name address url)) \<longrightarrow>
      (\<exists>d. first_match DISTRICT_KEYWORDS (combined name address url) = Some d
           \<and> infer_district fl name address url lat lon = Inr d))
   \<and> ((\<forall>k\<in>fst ` set DISTRICT_KEYWORDS. \<not> str_in k (combined name address url))
        \<and> (\<exists>r\<in>fst ` set ROAD_TO_DISTRICT. str_in r address) \<longrightarrow>
      (\<exists>d. first_match ROAD_TO_DISTRICT address = Some d
           \<and> infer_district fl name address url lat lon = Inr d))
   \<and> ((\<forall>k\<in>fst ` set DISTRICT_KEYWORDS. \<not> str_in k (combined name address url))
        \<and> (\<forall>r\<in>fst ` set ROAD_TO_DISTRICT. \<not> str_in r address)
        \<and> map_of MANUAL_OVERRIDES name = Some d' \<longrightarrow>
      infer_district fl name address url lat lon = Inr d')
   \<and> ((\<forall>k\<in>fst ` set DISTRICT_KEYWORDS. \<not> str_in k (combined name address url))
        \<and> (\<forall>r\<in>fst ` set ROAD_TO_DISTRICT. \<not> str_in r address)
        \<and> map_of MANUAL_OVERRIDES name = None \<longrightarrow>
      infer_district fl name address url lat lon =
        (case (lat, lon) of (Some la, Some lo) \<Rightarrow> nearest_centroid fl la lo | _ \<Rightarrow> Inr unresolved))"
proof -
  let ?kw = "first_match DISTRICT_KEYWORDS (combined name address url)"
  let ?road = "first_match ROAD_TO_DISTRICT address"
  have nk: "?kw = None"
    if "\<forall>k\<in>fst ` set DISTRICT_KEYWORDS. \<not> str_in k (combined name address url)"
    using that by (rule first_match_None_iff [THEN iffD2])
  have nr: "?road = None"
    if "\<forall>r\<in>fst ` set ROAD_TO_DISTRICT. \<not> str_in r address"
    using that by (rule first_match_None_iff [THEN iffD2])
  have 1: "\<exists>d. ?kw = Some d \<and> infer_district fl name address url lat lon = Inr d"
    if h: "\<exists>k\<in>fst ` set DISTRICT_KEYWORDS. str_in k (combined name address url)"
  proof -
    from first_match_hit [OF h] obtain d where d: "?kw = Some d" ..
    from d infer_district_keyword [OF d] show ?thesis by (intro exI conjI)
  qed
  have 2: "\<exists>d. ?road = Some d \<and> infer_district fl name address url lat lon = Inr d"
    if h: "(\<forall>k\<in>fst ` set DISTRICT_KEYWORDS. \<not> str_in k (combined name address url))
        \<and> (\<exists>r\<in>fst ` set ROAD_TO_DISTRICT. str_in r address)"
  proof -
    from h have kw: "?kw = None" by (intro nk) (rule conjunct1)
    from h have "\<exists>r\<in>fst ` set ROAD_TO_DISTRICT. str_in r address" by (rule conjunct2)
    from first_match_hit [OF this] obtain d where d: "?road = Some d" ..
    from d infer_district_road [OF kw d] show ?thesis by (intro exI conjI)
  qed
  have 3: "infer_district fl name address url lat lon = Inr d'"
    if h: "(\<forall>k\<in>fst ` set DISTRICT_KEYWORDS. \<not> str_in k (combined name address url))
        \<and> (\<forall>r\<in>fst ` set ROAD_TO_DISTRICT. \<not> str_in r address)
        \<and> map_of MANUAL_OVERRIDES name = Some d'"
  proof -
    from h have kw: "?kw = None" by (intro nk) (rule conjunct1)
    from h have road: "?road = None" by (intro nr) (rule conjunct2 [THEN conjunct1])
    from h have ov: "map_of MANUAL_OVERRIDES name = Some d'" by (rule conjunct2 [THEN conjunct2])
    from kw road ov show ?thesis by (rule infer_district_override)
  qed
  have 4: "infer_district fl name address url lat lon =
        (case (lat, lon) of (Some la, Some lo) \<Rightarrow> nearest_centroid fl la lo | _ \<Rightarrow> Inr unresolved)"
    if h: "(\<forall>k\<in>fst ` set DISTRICT_KEYWORDS. \<not> str_in k (combined name address url))
        \<and> (\<forall>r\<in>fst ` set ROAD_TO_DISTRICT. \<not> str_in r address)
        \<and> map_of MANUAL_OVERRIDES name = None"
  proof -
    from h have kw: "?kw = None" by (intro nk) (rule conjunct1)
    from h have road: "?road = None" by (intro nr) (rule conjunct2 [THEN conjunct1])
    from h have ov: "map_of MANUAL_OVERRIDES name = None" by (rule conjunct2 [THEN conjunct2])
    from kw road ov show ?thesis by (rule infer_district_fallback)
  qed
  from 1 2 3 4 show ?thesis by (intro conjI impI)
qed

text \<open>
  Claim C1. The rules form a strict cascade. The text the keyword table is checked
  against is the name, a space, the address, a space and the URL, in this order. If a key
  of the keyword table occurs in this text, the result is the district the keyword table
  gives (that of its first key that occurs), whatever the road table, the override table
  and the coordinate would give. Otherwise, if a key of the road table occurs in the
  address alone, the result is the district the road table gives (that of its first key
  that occurs). Otherwise, if the exact name is a key of the override table, the result
  is the district of that entry, whatever the coordinate. Otherwise the result is
  that of the coordinate fallback: the nearest centroid when both coordinates are
  present, the sentinel when not.
\<close>

theorem infer_district_cascade:
  "((\<exists>k\<in>fst ` set DISTRICT_KEYWORDS. str_in k (name @ [32] @ address @ [32] @ url)) \<longrightarrow>
      (\<exists>i<length DISTRICT_KEYWORDS.
          str_in (fst (DISTRICT_KEYWORDS ! i)) (name @ [32] @ address @ [32] @ url)
          \<and> (\<forall>j<i. \<not> str_in (fst (DISTRICT_KEYWORDS ! j)) (name @ [32] @ address @ [32] @ url))
          \<and> infer_district fl name address url lat lon = Inr (snd (DISTRICT_KEYWORDS ! i))))
   \<and> ((\<forall>k\<in>fst ` set DISTRICT_KEYWORDS. \<not> str_in k (name @ [32] @ address @ [32] @ url))
        \<and> (\<exists>r\<in>fst ` set ROAD_TO_DISTRICT. str_in r address) \<longrightarrow>
      (\<exists>i<length ROAD_TO_DISTRICT.
          str_in (fst (ROAD_TO_DISTRICT ! i)) address
          \<and> (\<forall>j<i. \<not> str_in (fst (ROAD_TO_DISTRICT ! j)) address)
          \<and> infer_district fl name address url lat lon = Inr (snd (ROAD_TO_DISTRICT ! i))))
   \<and> ((\<forall>k\<in>fst ` set DISTRICT_KEYWORDS. \<not> str_in k (name @ [32] @ address @ [32] @ url))
        \<and> (\<forall>r\<in>fst ` set ROAD_TO_DISTRICT. \<not> str_in r address)
        \<and> (name, d') \<in> set MANUAL_OVERRIDES \<longrightarrow>
      infer_district fl name address url lat lon = Inr d')
   \<and> ((\<forall>k\<in>fst ` set DISTRICT_KEYWORDS. \<not> str_in k (name @ [32] @ address @ [32] @ url))
        \<and> (\<forall>r\<in>fst ` set ROAD_TO_DISTRICT. \<not> str_in r address)
        \<and> name \<notin> fst ` set MANUAL_OVERRIDES \<longrightarrow>
      infer_district fl name address url lat lon =
        (case (lat, lon) of (Some la, Some lo) \<Rightarrow> nearest_centroid fl la lo | _ \<Rightarrow> Inr unresolved))"
proof -
  note st = infer_district_stages [where name = name and address = address and url = url
      and fl = fl and lat = lat and lon = lon, unfolded combined_eq]
  have kw: "\<exists>i<length DISTRICT_KEYWORDS.
          str_in (fst (DISTRICT_KEYWORDS ! i)) (name @ [32] @ address @ [32] @ url)
          \<and> (\<forall>j<i. \<not> str_in (fst (DISTRICT_KEYWORDS ! j)) (name @ [32] @ address @ [32] @ url))
          \<and> infer_district fl name address url lat lon = Inr (snd (DISTRICT_KEYWORDS ! i))"
    if h: "\<exists>k\<in>fst ` set DISTRICT_KEYWORDS. str_in k (name @ [32] @ address @ [32] @ url)"
  proof -
    from st [THEN conjunct1, THEN mp, OF h] obtain d where
      d: "first_match DISTRICT_KEYWORDS (name @ [32] @ address @ [32] @ url) = Some d"
      and r: "infer_district fl name address url lat lon = Inr d" by blast
    from d obtain i where i: "i < length DISTRICT_KEYWORDS"
      "str_in (fst (DISTRICT_KEYWORDS ! i)) (name @ [32] @ address @ [32] @ url)"
      "\<forall>j<i. \<not> str_in (fst (DISTRICT_KEYWORDS ! j)) (name @ [32] @ address @ [32] @ url)"
      "d = snd (DISTRICT_KEYWORDS ! i)"
      unfolding first_match_Some_iff by blast
    from r i(4) have "infer_district fl name address url lat lon = Inr (snd (DISTRICT_KEYWORDS ! i))"
      by simp
    with i(1,2,3) show ?thesis by blast
  qed
  have road: "\<exists>i<length ROAD_TO_DISTRICT.
          str_in (fst (ROAD_TO_DISTRICT ! i)) address
          \<and> (\<forall>j<i. \<not> str_in (fst (ROAD_TO_DISTRICT ! j)) address)
          \<and> infer_district fl name address url lat lon = Inr (snd (ROAD_TO_DISTRICT ! i))"
    if h: "(\<forall>k\<in>fst ` set DISTRICT_KEYWORDS. \<not> str_in k (name @ [32] @ address @ [32] @ url))
        \<and> (\<exists>r\<in>fst ` set ROAD_TO_DISTRICT. str_in r address)"
  proof -
    from st [THEN conjunct2, THEN conjunct1, THEN mp, OF h] obtain d where
      d: "first_match ROAD_TO_DISTRICT address = Some d"
      and r: "infer_district fl name address url lat lon = Inr d" by blast
    from d obtain i where i: "i < length ROAD_TO_DISTRICT"
      "str_in (fst (ROAD_TO_DISTRICT ! i)) address"
      "\<forall>j<i. \<not> str_in (fst (ROAD_TO_DISTRICT ! j)) address"
      "d = snd (ROAD_TO_DISTRICT ! i)"
      unfolding first_match_Some_iff by blast
    from r i(4) have "infer_district fl name address url lat lon = Inr (snd (ROAD_TO_DISTRICT ! i))"
      by simp
    with i(1,2,3) show ?thesis by blast
  qed
  have ov: "infer_district fl name address url lat lon = Inr d'"
    if h: "(\<forall>k\<in>fst ` set DISTRICT_KEYWORDS. \<not> str_in k (name @ [32] @ address @ [32] @ url))
        \<and> (\<forall>r\<in>fst ` set ROAD_TO_DISTRICT. \<not> str_in r address)
        \<and> (name, d') \<in> set MANUAL_OVERRIDES"
  proof -
    from h have "(name, d') \<in> set MANUAL_OVERRIDES" by (rule conjunct2 [THEN conjunct2])
    with override_keys_distinct have m: "map_of MANUAL_OVERRIDES name = Some d'"
      by (rule map_of_is_SomeI)
    from h have h1: "\<forall>k\<in>fst ` set DISTRICT_KEYWORDS. \<not> str_in k (name @ [32] @ address @ [32] @ url)"
      by (rule conjunct1)
    from h have h2: "\<forall>r\<in>fst ` set ROAD_TO_DISTRICT. \<not> str_in r address"
      by (rule conjunct2 [THEN conjunct1])
    from h1 h2 m have "(\<forall>k\<in>fst ` set DISTRICT_KEYWORDS. \<not> str_in k (name @ [32] @ address @ [32] @ url))
        \<and> (\<forall>r\<in>fst ` set ROAD_TO_DISTRICT. \<not> str_in r address)
        \<and> map_of MANUAL_OVERRIDES name = Some d'" by (intro conjI)
    then show ?thesis
      by (rule infer_district_stages [where name = name and address = address and url = url
          and fl = fl and lat = lat and lon = lon and d' = d', unfolded combined_eq,
          THEN conjunct2, THEN conjunct2, THEN conjunct1, THEN mp])
  qed
  have fb: "infer_district fl name address url lat lon =
        (case (lat, lon) of (Some la, Some lo) \<Rightarrow> nearest_centroid fl la lo | _ \<Rightarrow> Inr unresolved)"
    if h: "(\<forall>k\<in>fst ` set DISTRICT_KEYWORDS. \<not> str_in k (name @ [32] @ address @ [32] @ url))
        \<and> (\<forall>r\<in>fst ` set ROAD_TO_DISTRICT. \<not> str_in r address)
        \<and> name \<notin> fst ` set MANUAL_OVERRIDES"
  proof -
    from h have "name \<notin> fst ` set MANUAL_OVERRIDES" by (rule conjunct2 [THEN conjunct2])
    then have m: "map_of MANUAL_OVERRIDES name = None"
      by (simp add: map_of_eq_None_iff)
    from h have h1: "\<forall>k\<in>fst ` set DISTRICT_KEYWORDS. \<not> str_in k (name @ [32] @ address @ [32] @ url)"
      by (rule conjunct1)
    from h have h2: "\<forall>r\<in>fst ` set ROAD_TO_DISTRICT. \<not> str_in r address"
      by (rule conjunct2 [THEN conjunct1])
    from h1 h2 m have "(\<forall>k\<in>fst ` set DISTRICT_KEYWORDS. \<not> str_in k (name @ [32] @ address @ [32] @ url))
        \<and> (\<forall>r\<in>fst ` set ROAD_TO_DISTRICT. \<not> str_in r address)
        \<and> map_of MANUAL_OVERRIDES name = None" by (intro conjI)
    then show ?thesis
      by (rule st [THEN conjunct2, THEN conjunct2, THEN conjunct2, THEN mp])
  qed
  from kw road ov fb show ?thesis by (intro conjI impI)
qed

text \<open>
  Six records. (1) An address "Yonghe Zhongzheng Road" contains the road key Zhongzheng
  Road (Banqiao) and the keyword Yonghe: the keyword table decides (Yonghe). (2) The
  keyword Zhonghe stands in the name only, the address is Zhongzheng Road: the keyword
  table decides (Zhonghe). (3) The keyword Yonghe stands in the URL only, the address is
  Zhongzheng Road: the keyword table decides (Yonghe). (4) The address Zhongzheng Road
  with no keyword anywhere: the road table decides (Banqiao). (5) A shop name that
  contains the road key Zhongzheng Road, with an empty address: the road table looks at
  the address alone, nothing matches, and the result is the sentinel. (6) A shop whose
  name is the first key of the override table, at the coordinate of the Banqiao centroid,
  resolves to the override's district (Songshan), although the nearest centroid of that
  coordinate is Banqiao.
\<close>

theorem infer_district_cascade_witness:
  "infer_district exact [] [0x6C38, 0x548C, 0x4E2D, 0x6B63, 0x8DEF] [] None None = Inr yonghe
   \<and> first_match ROAD_TO_DISTRICT [0x6C38, 0x548C, 0x4E2D, 0x6B63, 0x8DEF] = Some banqiao
   \<and> infer_district exact [0x4E2D, 0x548C] [0x4E2D, 0x6B63, 0x8DEF] [] None None = Inr zhonghe
   \<and> infer_district exact [] [0x4E2D, 0x6B63, 0x8DEF] (asc ''https://maps.example/'' @ [0x6C38, 0x548C])
        None None = Inr yonghe
   \<and> infer_district exact [] [0x4E2D, 0x6B63, 0x8DEF] [] None None = Inr banqiao
   \<and> infer_district exact [0x4E2D, 0x6B63, 0x8DEF, 0x82B1, 0x5E97] [] [] None None = Inr unresolved
   \<and> infer_district exact [0x53F0, 0x5317, 0x611B, 0x9E97, 0x7D72, 0x82B1, 0x574A, 0x7DB2, 0x8DEF, 0x82B1, 0x5E97]
        [] [] (Some 25.0112) (Some 121.4637) = Inr songshan
   \<and> nearest_centroid exact 25.0112 121.4637 = Inr banqiao"
proof -
  let ?addr = "[0x6C38, 0x548C, 0x4E2D, 0x6B63, 0x8DEF] :: ustr"
  let ?road = "[0x4E2D, 0x6B63, 0x8DEF] :: ustr"
  let ?zh = "[0x4E2D, 0x548C] :: ustr"
  let ?url = "asc ''https://maps.example/'' @ [0x6C38, 0x548C]"
  let ?florist = "[0x4E2D, 0x6B63, 0x8DEF, 0x82B1, 0x5E97] :: ustr"
  let ?shop = "[0x53F0, 0x5317, 0x611B, 0x9E97, 0x7D72, 0x82B1, 0x574A, 0x7DB2, 0x8DEF, 0x82B1, 0x5E97] :: ustr"
  have kw1: "first_match DISTRICT_KEYWORDS ([] @ [32] @ ?addr @ [32] @ []) = Some yonghe"
    by (simp add: DISTRICT_KEYWORDS_def starts_with_def)
  then have "first_match DISTRICT_KEYWORDS ([] @ [32] @ ?addr @ [32] @ []) \<noteq> None" by simp
  then have hit1: "\<exists>k\<in>fst ` set DISTRICT_KEYWORDS. str_in k ([] @ [32] @ ?addr @ [32] @ [])"
    by (simp only: first_match_None_iff) blast
  from infer_district_cascade [where name = "[]" and address = ?addr and url = "[]"
      and fl = exact and lat = None and lon = None] hit1
  obtain i1 where i1: "i1 < length DISTRICT_KEYWORDS"
    "str_in (fst (DISTRICT_KEYWORDS ! i1)) ([] @ [32] @ ?addr @ [32] @ [])"
    "\<forall>j<i1. \<not> str_in (fst (DISTRICT_KEYWORDS ! j)) ([] @ [32] @ ?addr @ [32] @ [])"
    "infer_district exact [] ?addr [] None None = Inr (snd (DISTRICT_KEYWORDS ! i1))"
    by blast
  from i1(1,2,3) have "first_match DISTRICT_KEYWORDS ([] @ [32] @ ?addr @ [32] @ []) = Some (snd (DISTRICT_KEYWORDS ! i1))"
    unfolding first_match_Some_iff by blast
  with kw1 i1(4) have r1: "infer_district exact [] ?addr [] None None = Inr yonghe" by simp
  have r1': "first_match ROAD_TO_DISTRICT ?addr = Some banqiao"
    by (simp add: ROAD_TO_DISTRICT_def starts_with_def)
  have kw2: "first_match DISTRICT_KEYWORDS (?zh @ [32] @ ?road @ [32] @ []) = Some zhonghe"
    by (simp add: DISTRICT_KEYWORDS_def starts_with_def)
  then have "first_match DISTRICT_KEYWORDS (?zh @ [32] @ ?road @ [32] @ []) \<noteq> None" by simp
  then have hit2: "\<exists>k\<in>fst ` set DISTRICT_KEYWORDS. str_in k (?zh @ [32] @ ?road @ [32] @ [])"
    by (simp only: first_match_None_iff) blast
  from infer_district_cascade [where name = ?zh and address = ?road and url = "[]"
      and fl = exact and lat = None and lon = None] hit2
  obtain i2 where i2: "i2 < length DISTRICT_KEYWORDS"
    "str_in (fst (DISTRICT_KEYWORDS ! i2)) (?zh @ [32] @ ?road @ [32] @ [])"
    "\<forall>j<i2. \<not> str_in (fst (DISTRICT_KEYWORDS ! j)) (?zh @ [32] @ ?road @ [32] @ [])"
    "infer_district exact ?zh ?road [] None None = Inr (snd (DISTRICT_KEYWORDS ! i2))"
    by blast
  from i2(1,2,3) have "first_match DISTRICT_KEYWORDS (?zh @ [32] @ ?road @ [32] @ []) = Some (snd (DISTRICT_KEYWORDS ! i2))"
    unfolding first_match_Some_iff by blast
  with kw2 i2(4) have r2: "infer_district exact ?zh ?road [] None None = Inr zhonghe" by simp
  have kw3: "first_match DISTRICT_KEYWORDS ([] @ [32] @ ?road @ [32] @ ?url) = Some yonghe"
    by (simp add: DISTRICT_KEYWORDS_def starts_with_def asc_def)
  then have "first_match DISTRICT_KEYWORDS ([] @ [32] @ ?road @ [32] @ ?url) \<noteq> None" by simp
  then have hit3: "\<exists>k\<in>fst ` set DISTRICT_KEYWORDS. str_in k ([] @ [32] @ ?road @ [32] @ ?url)"
    by (simp only: first_match_None_iff) blast
  from infer_district_cascade [where name = "[]" and address = ?road and url = ?url
      and fl = exact and lat = None and lon = None] hit3
  obtain i3 where i3: "i3 < length DISTRICT_KEYWORDS"
    "str_in (fst (DISTRICT_KEYWORDS ! i3)) ([] @ [32] @ ?road @ [32] @ ?url)"
    "\<forall>j<i3. \<not> str_in (fst (DISTRICT_KEYWORDS ! j)) ([] @ [32] @ ?road @ [32] @ ?url)"
    "infer_district exact [] ?road ?url None None = Inr (snd (DISTRICT_KEYWORDS ! i3))"
    by blast
  from i3(1,2,3) have "first_match DISTRICT_KEYWORDS ([] @ [32] @ ?road @ [32] @ ?url) = Some (snd (DISTRICT_KEYWORDS ! i3))"
    unfolding first_match_Some_iff by blast
  with kw3 i3(4) have r3: "infer_district exact [] ?road ?url None None = Inr yonghe" by simp
  have "first_match DISTRICT_KEYWORDS ([] @ [32] @ ?road @ [32] @ []) = None"
    by (simp add: DISTRICT_KEYWORDS_def starts_with_def)
  then have nk4: "\<forall>k\<in>fst ` set DISTRICT_KEYWORDS. \<not> str_in k ([] @ [32] @ ?road @ [32] @ [])"
    by (simp only: first_match_None_iff)
  have rd4: "first_match ROAD_TO_DISTRICT ?road = Some banqiao"
    by (simp add: ROAD_TO_DISTRICT_def starts_with_def)
  then have "first_match ROAD_TO_DISTRICT ?road \<noteq> None" by simp
  then have hit4: "\<exists>r\<in>fst ` set ROAD_TO_DISTRICT. str_in r ?road"
    by (simp only: first_match_None_iff) blast
  from infer_district_cascade [where name = "[]" and address = ?road and url = "[]"
      and fl = exact and lat = None and lon = None] nk4 hit4
  obtain i4 where i4: "i4 < length ROAD_TO_DISTRICT"
    "str_in (fst (ROAD_TO_DISTRICT ! i4)) ?road"
    "\<forall>j<i4. \<not> str_in (fst (ROAD_TO_DISTRICT ! j)) ?road"
    "infer_district exact [] ?road [] None None = Inr (snd (ROAD_TO_DISTRICT ! i4))"
    by blast
  from i4(1,2,3) have "first_match ROAD_TO_DISTRICT ?road = Some (snd (ROAD_TO_DISTRICT ! i4))"
    unfolding first_match_Some_iff by blast
  with rd4 i4(4) have r4: "infer_district exact [] ?road [] None None = Inr banqiao" by simp
  have "first_match DISTRICT_KEYWORDS (?florist @ [32] @ [] @ [32] @ []) = None"
    by (simp add: DISTRICT_KEYWORDS_def starts_with_def)
  then have nk5: "\<forall>k\<in>fst ` set DISTRICT_KEYWORDS. \<not> str_in k (?florist @ [32] @ [] @ [32] @ [])"
    by (simp only: first_match_None_iff)
  have "first_match ROAD_TO_DISTRICT [] = None"
    by (simp add: ROAD_TO_DISTRICT_def)
  then have nr: "\<forall>r\<in>fst ` set ROAD_TO_DISTRICT. \<not> str_in r []"
    by (simp only: first_match_None_iff)
  have ov5: "?florist \<notin> fst ` set MANUAL_OVERRIDES"
    by (simp add: MANUAL_OVERRIDES_def)
  from infer_district_cascade [where name = ?florist and address = "[]" and url = "[]"
      and fl = exact and lat = None and lon = None] nk5 nr ov5
  have "infer_district exact ?florist [] [] None None
          = (case (None :: real option, None :: real option) of
               (Some la, Some lo) \<Rightarrow> nearest_centroid exact la lo | _ \<Rightarrow> Inr unresolved)"
    by blast
  then have r5: "infer_district exact ?florist [] [] None None = Inr unresolved" by simp
  have "first_match DISTRICT_KEYWORDS (?shop @ [32] @ [] @ [32] @ []) = None"
    by (simp add: DISTRICT_KEYWORDS_def starts_with_def)
  then have nk6: "\<forall>k\<in>fst ` set DISTRICT_KEYWORDS. \<not> str_in k (?shop @ [32] @ [] @ [32] @ [])"
    by (simp only: first_match_None_iff)
  have ov6: "(?shop, songshan) \<in> set MANUAL_OVERRIDES"
    by (simp add: MANUAL_OVERRIDES_def)
  from infer_district_cascade [where name = ?shop and address = "[]" and url = "[]"
      and fl = exact and d' = songshan and lat = "Some 25.0112" and lon = "Some 121.4637"] nk6 nr ov6
  have r6: "infer_district exact ?shop [] [] (Some 25.0112) (Some 121.4637) = Inr songshan"
    by blast
  from r1 r1' r2 r3 r4 r5 r6 nearest_centroid_at_banqiao show ?thesis by (intro conjI)
qed

text \<open>
  Claim C6, as amended. Within the table that decides a record, the first matching key
  in the table's order wins. If key \<open>i\<close> of the keyword table occurs in the combined
  text and no earlier key of that table does, the result is the district of key \<open>i\<close>.
  If no keyword occurs in the combined text, key \<open>i\<close> of the road table occurs in the
  address and no earlier road key does, the result is the district of road key \<open>i\<close>.
  If neither table matches and entry \<open>i\<close> of the override table has exactly the
  record's name as its key, the result is that entry's district, and no other entry of
  the override table has this key.
\<close>

theorem first_matching_key_decides:
  "(i < length DISTRICT_KEYWORDS
      \<and> str_in (fst (DISTRICT_KEYWORDS ! i)) (combined name address url)
      \<and> (\<forall>j<i. \<not> str_in (fst (DISTRICT_KEYWORDS ! j)) (combined name address url))
     \<longrightarrow> infer_district fl name address url lat lon = Inr (snd (DISTRICT_KEYWORDS ! i)))
   \<and> ((\<forall>k\<in>fst ` set DISTRICT_KEYWORDS. \<not> str_in k (combined name address url))
      \<and> i < length ROAD_TO_DISTRICT
      \<and> str_in (fst (ROAD_TO_DISTRICT ! i)) address
      \<and> (\<forall>j<i. \<not> str_in (fst (ROAD_TO_DISTRICT ! j)) address)
     \<longrightarrow> infer_district fl name address url lat lon = Inr (snd (ROAD_TO_DISTRICT ! i)))
   \<and> ((\<forall>k\<in>fst ` set DISTRICT_KEYWORDS. \<not> str_in k (combined name address url))
      \<and> (\<forall>r\<in>fst ` set ROAD_TO_DISTRICT. \<not> str_in r address)
      \<and> i < length MANUAL_OVERRIDES
      \<and> fst (MANUAL_OVERRIDES ! i) = name
     \<longrightarrow> infer_district fl name address url lat lon = Inr (snd (MANUAL_OVERRIDES ! i))
         \<and> (\<forall>j<length MANUAL_OVERRIDES. fst (MANUAL_OVERRIDES ! j) = name \<longrightarrow> j = i))"
proof -
  let ?kw = "first_match DISTRICT_KEYWORDS (combined name address url)"
  let ?road = "first_match ROAD_TO_DISTRICT address"
  have nk: "?kw = None"
    if "\<forall>k\<in>fst ` set DISTRICT_KEYWORDS. \<not> str_in k (combined name address url)"
    using that by (rule first_match_None_iff [THEN iffD2])
  have nr: "?road = None"
    if "\<forall>r\<in>fst ` set ROAD_TO_DISTRICT. \<not> str_in r address"
    using that by (rule first_match_None_iff [THEN iffD2])
  have 1: "infer_district fl name address url lat lon = Inr (snd (DISTRICT_KEYWORDS ! i))"
    if h: "i < length DISTRICT_KEYWORDS
      \<and> str_in (fst (DISTRICT_KEYWORDS ! i)) (combined name address url)
      \<and> (\<forall>j<i. \<not> str_in (fst (DISTRICT_KEYWORDS ! j)) (combined name address url))"
  proof -
    from h have "?kw = Some (snd (DISTRICT_KEYWORDS ! i))"
      unfolding first_match_Some_iff by blast
    then show ?thesis by (rule infer_district_keyword)
  qed
  have 2: "infer_district fl name address url lat lon = Inr (snd (ROAD_TO_DISTRICT ! i))"
    if h: "(\<forall>k\<in>fst ` set DISTRICT_KEYWORDS. \<not> str_in k (combined name address url))
      \<and> i < length ROAD_TO_DISTRICT
      \<and> str_in (fst (ROAD_TO_DISTRICT ! i)) address
      \<and> (\<forall>j<i. \<not> str_in (fst (ROAD_TO_DISTRICT ! j)) address)"
  proof -
    from h have kw: "?kw = None" by (intro nk) (rule conjunct1)
    from h have "?road = Some (snd (ROAD_TO_DISTRICT ! i))"
      unfolding first_match_Some_iff by blast
    with kw show ?thesis by (rule infer_district_road)
  qed
  have 3: "infer_district fl name address url lat lon = Inr (snd (MANUAL_OVERRIDES ! i))
         \<and> (\<forall>j<length MANUAL_OVERRIDES. fst (MANUAL_OVERRIDES ! j) = name \<longrightarrow> j = i)"
    if h: "(\<forall>k\<in>fst ` set DISTRICT_KEYWORDS. \<not> str_in k (combined name address url))
      \<and> (\<forall>r\<in>fst ` set ROAD_TO_DISTRICT. \<not> str_in r address)
      \<and> i < length MANUAL_OVERRIDES
      \<and> fst (MANUAL_OVERRIDES ! i) = name"
  proof -
    from h have kw: "?kw = None" by (intro nk) (rule conjunct1)
    from h have road: "?road = None" by (intro nr) (rule conjunct2 [THEN conjunct1])
    from h have i: "i < length MANUAL_OVERRIDES" "fst (MANUAL_OVERRIDES ! i) = name" by blast+
    from i(1) have "MANUAL_OVERRIDES ! i \<in> set MANUAL_OVERRIDES" by (rule nth_mem)
    with i(2) have "(name, snd (MANUAL_OVERRIDES ! i)) \<in> set MANUAL_OVERRIDES"
      by (metis prod.collapse)
    with override_keys_distinct have "map_of MANUAL_OVERRIDES name = Some (snd (MANUAL_OVERRIDES ! i))"
      by (rule map_of_is_SomeI)
    with kw road have a: "infer_district fl name address url lat lon = Inr (snd (MANUAL_OVERRIDES ! i))"
      by (rule infer_district_override)
    have b: "\<forall>j<length MANUAL_OVERRIDES. fst (MANUAL_OVERRIDES ! j) = name \<longrightarrow> j = i"
    proof (intro allI impI)
      fix j assume j: "j < length MANUAL_OVERRIDES" "fst (MANUAL_OVERRIDES ! j) = name"
      with i have "map fst MANUAL_OVERRIDES ! j = map fst MANUAL_OVERRIDES ! i" by simp
      moreover have "j < length (map fst MANUAL_OVERRIDES)" "i < length (map fst MANUAL_OVERRIDES)"
        using j(1) i(1) by simp_all
      ultimately show "j = i"
        using override_keys_distinct nth_eq_iff_index_eq by blast
    qed
    from a b show ?thesis ..
  qed
  have ov1: "infer_district fl name address url lat lon = Inr (snd (MANUAL_OVERRIDES ! i))"
    if "(\<forall>k\<in>fst ` set DISTRICT_KEYWORDS. \<not> str_in k (combined name address url))
      \<and> (\<forall>r\<in>fst ` set ROAD_TO_DISTRICT. \<not> str_in r address)
      \<and> i < length MANUAL_OVERRIDES
      \<and> fst (MANUAL_OVERRIDES ! i) = name"
    using 3 [OF that] by (rule conjunct1)
  have ov2: "\<forall>j<length MANUAL_OVERRIDES. fst (MANUAL_OVERRIDES ! j) = name \<longrightarrow> j = i"
    if "(\<forall>k\<in>fst ` set DISTRICT_KEYWORDS. \<not> str_in k (combined name address url))
      \<and> (\<forall>r\<in>fst ` set ROAD_TO_DISTRICT. \<not> str_in r address)
      \<and> i < length MANUAL_OVERRIDES
      \<and> fst (MANUAL_OVERRIDES ! i) = name"
    using 3 [OF that] by (rule conjunct2)
  from 1 2 ov1 ov2 show ?thesis by (intro conjI impI)
qed

text \<open>
  Three records: an address with the keywords Yonghe and Banqiao (the first keyword of
  the table, Banqiao, wins); an address "Liancheng Road Zhongzheng Road" with no keyword
  (road key 1, Zhongzheng Road, stands before road key 32, Liancheng Road, in the table
  and wins, although it comes later in the address); a shop named as override key 3.
\<close>

theorem first_matching_key_decides_witness:
  "infer_district exact [] [0x6C38, 0x548C, 0x677F, 0x6A4B] [] None None = Inr banqiao
   \<and> infer_district exact [] [0x9023, 0x57CE, 0x8DEF, 0x4E2D, 0x6B63, 0x8DEF] [] None None = Inr banqiao
   \<and> infer_district exact [0x82B1, 0x898B, 0x937E, 0x60C5, 0x82B1, 0x574A] [] [] None None = Inr tucheng"
proof -
  let ?a1 = "[0x6C38, 0x548C, 0x677F, 0x6A4B] :: ustr"
  let ?a2 = "[0x9023, 0x57CE, 0x8DEF, 0x4E2D, 0x6B63, 0x8DEF] :: ustr"
  let ?n3 = "[0x82B1, 0x898B, 0x937E, 0x60C5, 0x82B1, 0x574A] :: ustr"
  have p1: "0 < length DISTRICT_KEYWORDS
      \<and> str_in (fst (DISTRICT_KEYWORDS ! 0)) (combined [] ?a1 [])
      \<and> (\<forall>j<0. \<not> str_in (fst (DISTRICT_KEYWORDS ! j)) (combined [] ?a1 []))"
    by (simp add: DISTRICT_KEYWORDS_def combined_def asc_def starts_with_def)
  have also_later: "str_in (fst (DISTRICT_KEYWORDS ! 2)) (combined [] ?a1 [])"
    by (simp add: DISTRICT_KEYWORDS_def combined_def asc_def starts_with_def)
  from first_matching_key_decides [where i = 0 and name = "[]" and address = ?a1 and url = "[]"
      and fl = exact and lat = None and lon = None] p1
  have "infer_district exact [] ?a1 [] None None = Inr (snd (DISTRICT_KEYWORDS ! 0))" by blast
  then have r1: "infer_district exact [] ?a1 [] None None = Inr banqiao"
    by (simp add: DISTRICT_KEYWORDS_def)
  have "first_match DISTRICT_KEYWORDS (combined [] ?a2 []) = None"
    by (simp add: DISTRICT_KEYWORDS_def combined_def asc_def starts_with_def)
  then have nk2: "\<forall>k\<in>fst ` set DISTRICT_KEYWORDS. \<not> str_in k (combined [] ?a2 [])"
    by (simp only: first_match_None_iff)
  have p2: "1 < length ROAD_TO_DISTRICT
      \<and> str_in (fst (ROAD_TO_DISTRICT ! 1)) ?a2
      \<and> (\<forall>j<1. \<not> str_in (fst (ROAD_TO_DISTRICT ! j)) ?a2)"
    by (simp add: ROAD_TO_DISTRICT_def starts_with_def)
  have also_later2: "str_in (fst (ROAD_TO_DISTRICT ! 32)) ?a2"
    by (simp add: ROAD_TO_DISTRICT_def starts_with_def)
  from first_matching_key_decides [where i = 1 and name = "[]" and address = ?a2 and url = "[]"
      and fl = exact and lat = None and lon = None] nk2 p2
  have "infer_district exact [] ?a2 [] None None = Inr (snd (ROAD_TO_DISTRICT ! 1))" by blast
  then have r2: "infer_district exact [] ?a2 [] None None = Inr banqiao"
    by (simp add: ROAD_TO_DISTRICT_def)
  have "first_match DISTRICT_KEYWORDS (combined ?n3 [] []) = None"
    by (simp add: DISTRICT_KEYWORDS_def combined_def asc_def starts_with_def)
  then have nk3: "\<forall>k\<in>fst ` set DISTRICT_KEYWORDS. \<not> str_in k (combined ?n3 [] [])"
    by (simp only: first_match_None_iff)
  have "first_match ROAD_TO_DISTRICT [] = None"
    by (simp add: ROAD_TO_DISTRICT_def)
  then have nr3: "\<forall>r\<in>fst ` set ROAD_TO_DISTRICT. \<not> str_in r []"
    by (simp only: first_match_None_iff)
  have p3: "3 < length MANUAL_OVERRIDES \<and> fst (MANUAL_OVERRIDES ! 3) = ?n3"
    by (simp add: MANUAL_OVERRIDES_def)
  from first_matching_key_decides [where i = 3 and name = ?n3 and address = "[]" and url = "[]"
      and fl = exact and lat = None and lon = None] nk3 nr3 p3
  have "infer_district exact ?n3 [] [] None None = Inr (snd (MANUAL_OVERRIDES ! 3))" by blast
  then have r3: "infer_district exact ?n3 [] [] None None = Inr tucheng"
    by (simp add: MANUAL_OVERRIDES_def)
  from r1 r2 r3 show ?thesis by (intro conjI)
qed

text \<open>
  Claim C6 as stated fails for the road table and for the override table. The address
  "Yonghe Zhongzheng Road Liancheng Road" contains two keys of the road table, the
  earliest of which maps to Banqiao, but the classifier returns Yonghe: the keyword table
  decides before the road table is consulted. A name that contains two keys of the
  override table (here keys 3 and 5, one after the other) matches none of them, since the
  override table is looked up by the exact name: the result is the sentinel, not the
  district of the earliest key.
\<close>

theorem first_key_wins_counterexample:
  "str_in (fst (ROAD_TO_DISTRICT ! 1)) [0x6C38, 0x548C, 0x4E2D, 0x6B63, 0x8DEF, 0x9023, 0x57CE, 0x8DEF]
   \<and> str_in (fst (ROAD_TO_DISTRICT ! 32)) [0x6C38, 0x548C, 0x4E2D, 0x6B63, 0x8DEF, 0x9023, 0x57CE, 0x8DEF]
   \<and> snd (ROAD_TO_DISTRICT ! 1) = banqiao
   \<and> infer_district exact [] [0x6C38, 0x548C, 0x4E2D, 0x6B63, 0x8DEF, 0x9023, 0x57CE, 0x8DEF] [] None None
        = Inr yonghe
   \<and> yonghe \<noteq> banqiao
   \<and> str_in (fst (MANUAL_OVERRIDES ! 3))
        [0x82B1, 0x898B, 0x937E, 0x60C5, 0x82B1, 0x574A, 0x9E97, 0x7684, 0x82B1, 0x574A, 0x5DE5, 0x4F5C, 0x5BA4]
   \<and> str_in (fst (MANUAL_OVERRIDES ! 5))
        [0x82B1, 0x898B, 0x937E, 0x60C5, 0x82B1, 0x574A, 0x9E97, 0x7684, 0x82B1, 0x574A, 0x5DE5, 0x4F5C, 0x5BA4]
   \<and> snd (MANUAL_OVERRIDES ! 3) = tucheng
   \<and> infer_district exact
        [0x82B1, 0x898B, 0x937E, 0x60C5, 0x82B1, 0x574A, 0x9E97, 0x7684, 0x82B1, 0x574A, 0x5DE5, 0x4F5C, 0x5BA4]
        [] [] None None = Inr unresolved
   \<and> unresolved \<noteq> tucheng"
  by (simp add: infer_district_def ROAD_TO_DISTRICT_def DISTRICT_KEYWORDS_def MANUAL_OVERRIDES_def
      combined_def asc_def starts_with_def district_defs unresolved_def)

text \<open>
  Claim C8. A record with the address
  \<^verbatim>\<open>U+65B0 U+5317 U+5E02 U+677F U+6A4B U+5340 U+4E2D U+5C71 U+8DEF U+4E00 U+6BB5 100 U+865F\<close>
  (New Taipei, Banqiao District, Zhongshan Road Section 1, No. 100) resolves to the
  Banqiao district of New Taipei whatever its name, its URL and its coordinate are, and
  so with no coordinate present: the outcome of the scenario holds for every record with
  this address. The road table has its hit on Zhongshan Road Section 1: that is its key
  9, no earlier road key occurs in the address, and the table maps the address to
  Banqiao. No record with this address is without a keyword match, though: the address
  contains the keyword Banqiao, so the keyword table answers first, with the same
  district. The chain from the keyword table down to the road table is seen on the
  address without its district prefix (Zhongshan Road Section 1, No. 100): no keyword
  occurs, the road table gives Banqiao, and that is the result with no coordinate
  present.
\<close>

theorem fallback_chain_scenario:
  "infer_district fl name
     [0x65B0, 0x5317, 0x5E02, 0x677F, 0x6A4B, 0x5340, 0x4E2D, 0x5C71, 0x8DEF, 0x4E00,
      0x6BB5, 0x31, 0x30, 0x30, 0x865F] url lat lon = Inr banqiao
   \<and> infer_district fl name
     [0x65B0, 0x5317, 0x5E02, 0x677F, 0x6A4B, 0x5340, 0x4E2D, 0x5C71, 0x8DEF, 0x4E00,
      0x6BB5, 0x31, 0x30, 0x30, 0x865F] url None None = Inr banqiao
   \<and> fst (ROAD_TO_DISTRICT ! 9) = [0x4E2D, 0x5C71, 0x8DEF, 0x4E00, 0x6BB5]
   \<and> str_in [0x4E2D, 0x5C71, 0x8DEF, 0x4E00, 0x6BB5]
        [0x65B0, 0x5317, 0x5E02, 0x677F, 0x6A4B, 0x5340, 0x4E2D, 0x5C71, 0x8DEF, 0x4E00,
         0x6BB5, 0x31, 0x30, 0x30, 0x865F]
   \<and> list_all (\<lambda>r. \<not> str_in (fst r)
        [0x65B0, 0x5317, 0x5E02, 0x677F, 0x6A4B, 0x5340, 0x4E2D, 0x5C71, 0x8DEF, 0x4E00,
         0x6BB5, 0x31, 0x30, 0x30, 0x865F]) (take 9 ROAD_TO_DISTRICT)
   \<and> first_match ROAD_TO_DISTRICT
        [0x65B0, 0x5317, 0x5E02, 0x677F, 0x6A4B, 0x5340, 0x4E2D, 0x5C71, 0x8DEF, 0x4E00,
         0x6BB5, 0x31, 0x30, 0x30, 0x865F] = Some banqiao
   \<and> first_match DISTRICT_KEYWORDS
        (name @ [32] @ [0x65B0, 0x5317, 0x5E02, 0x677F, 0x6A4B, 0x5340, 0x4E2D, 0x5C71, 0x8DEF, 0x4E00,
                        0x6BB5, 0x31, 0x30, 0x30, 0x865F] @ [32] @ url) = Some banqiao
   \<and> first_match DISTRICT_KEYWORDS
        ([] @ [32] @ [0x4E2D, 0x5C71, 0x8DEF, 0x4E00, 0x6BB5, 0x31, 0x30, 0x30, 0x865F] @ [32] @ []) = None
   \<and> first_match ROAD_TO_DISTRICT [0x4E2D, 0x5C71, 0x8DEF, 0x4E00, 0x6BB5, 0x31, 0x30, 0x30, 0x865F]
        = Some banqiao
   \<and> infer_district fl [] [0x4E2D, 0x5C71, 0x8DEF, 0x4E00, 0x6BB5, 0x31, 0x30, 0x30, 0x865F] []
        None None = Inr banqiao"
proof -
  let ?addr = "[0x65B0, 0x5317, 0x5E02, 0x677F, 0x6A4B, 0x5340, 0x4E2D, 0x5C71, 0x8DEF, 0x4E00,
                0x6BB5, 0x31, 0x30, 0x30, 0x865F] :: ustr"
  let ?short = "[0x4E2D, 0x5C71, 0x8DEF, 0x4E00, 0x6BB5, 0x31, 0x30, 0x30, 0x865F] :: ustr"
  have split: "name @ [32] @ ?addr @ [32] @ url
          = (name @ [32, 0x65B0, 0x5317, 0x5E02]) @ [0x677F, 0x6A4B]
              @ ([0x5340, 0x4E2D, 0x5C71, 0x8DEF, 0x4E00, 0x6BB5, 0x31, 0x30, 0x30, 0x865F, 32] @ url)"
    by simp
  have "str_in [0x677F, 0x6A4B] (name @ [32] @ ?addr @ [32] @ url)"
    unfolding str_in_iff split by blast
  then have kw: "first_match DISTRICT_KEYWORDS (name @ [32] @ ?addr @ [32] @ url) = Some banqiao"
    by (simp add: DISTRICT_KEYWORDS_def)
  then have kw': "first_match DISTRICT_KEYWORDS (combined name ?addr url) = Some banqiao"
    by (simp only: combined_eq)
  have res: "infer_district fl name ?addr url la lo = Inr banqiao" for la lo
    using kw' by (rule infer_district_keyword)
  have key: "fst (ROAD_TO_DISTRICT ! 9) = [0x4E2D, 0x5C71, 0x8DEF, 0x4E00, 0x6BB5]"
    by (simp add: ROAD_TO_DISTRICT_def)
  have occ: "str_in [0x4E2D, 0x5C71, 0x8DEF, 0x4E00, 0x6BB5] ?addr"
    by (simp add: starts_with_def)
  have before: "list_all (\<lambda>r. \<not> str_in (fst r) ?addr) (take 9 ROAD_TO_DISTRICT)"
    by (simp add: ROAD_TO_DISTRICT_def starts_with_def)
  have road: "first_match ROAD_TO_DISTRICT ?addr = Some banqiao"
    by (simp add: ROAD_TO_DISTRICT_def starts_with_def)
  have skw: "first_match DISTRICT_KEYWORDS ([] @ [32] @ ?short @ [32] @ []) = None"
    by (simp add: DISTRICT_KEYWORDS_def starts_with_def)
  then have skw': "first_match DISTRICT_KEYWORDS (combined [] ?short []) = None"
    by (simp only: combined_eq)
  have sroad: "first_match ROAD_TO_DISTRICT ?short = Some banqiao"
    by (simp add: ROAD_TO_DISTRICT_def starts_with_def)
  have sres: "infer_district fl [] ?short [] None None = Inr banqiao"
    using skw' sroad by (rule infer_district_road)
  from res [of lat lon] res [of None None] key occ before road kw skw sroad sres
  show ?thesis by (intro conjI)
qed

section \<open>Properties of the normalizers\<close>

text \<open>
  Claim C9. With conversions that, as \<^verbatim>\<open>float\<close> and \<^verbatim>\<open>int\<close> do on a string, raise
  nothing but \<^verbatim>\<open>ValueError\<close>, neither normalizer raises. Each returns the empty
  string when the stripped value is empty or its conversion raises, and otherwise the
  formatted number: \<^verbatim>\<open>format(x, "g")\<close> of the float, \<^verbatim>\<open>str(n)\<close> of the integer.
\<close>

theorem normalizers_recover:
  assumes "\<And>s e. py_float s = Inl e \<Longrightarrow> e = ValueError"
    and "\<And>s e. py_int s = Inl e \<Longrightarrow> e = ValueError"
  shows "normalize_rating py_float format_g val =
           Inr (if strip val = [] then []
                else case py_float (strip val) of Inl e \<Rightarrow> [] | Inr x \<Rightarrow> format_g x)
       \<and> normalize_review_count py_int val =
           Inr (if strip val = [] then []
                else case py_int (strip val) of Inl e \<Rightarrow> [] | Inr n \<Rightarrow> str_of_int n)"
proof -
  have a: "normalize_rating py_float format_g val =
           Inr (if strip val = [] then []
                else case py_float (strip val) of Inl e \<Rightarrow> [] | Inr x \<Rightarrow> format_g x)"
    using assms(1) [of "strip val"]
    by (cases "py_float (strip val)") (simp_all add: normalize_rating_def Let_def)
  have b: "normalize_review_count py_int val =
           Inr (if strip val = [] then []
                else case py_int (strip val) of Inl e \<Rightarrow> [] | Inr n \<Rightarrow> str_of_int n)"
    using assms(2) [of "strip val"]
    by (cases "py_int (strip val)") (simp_all add: normalize_review_count_def Let_def)
  from a b show ?thesis ..
qed

lemma int_of_ascii_cases: "int_of_ascii s = Inl e \<Longrightarrow> e = ValueError"
  by (auto simp: int_of_ascii_def Let_def split: if_splits)

lemma float_of_token_error: "float_of_token fl s = Inl e \<Longrightarrow> e = ValueError"
  using float_of_token_cases [of fl s] by auto

text \<open>
  The normalizers at concrete inputs, with \<open>float_of_token exact\<close> and \<open>int_of_ascii\<close> as the
  conversions and a formatting that knows the one float the examples produce.
\<close>

theorem normalizers_recover_witness:
  "normalize_rating (float_of_token exact) (\<lambda>x. if x = 4.5 then asc ''4.5'' else []) (asc '' 4.50 '') = Inr (asc ''4.5'')
   \<and> normalize_rating (float_of_token exact) (\<lambda>x. if x = 4.5 then asc ''4.5'' else []) (asc ''n/a'') = Inr []
   \<and> normalize_rating (float_of_token exact) (\<lambda>x. if x = 4.5 then asc ''4.5'' else []) (asc ''   '') = Inr []
   \<and> normalize_review_count int_of_ascii (asc '' 0042 '') = Inr (asc ''42'')
   \<and> normalize_review_count int_of_ascii (asc ''4.2'') = Inr []
   \<and> normalize_review_count int_of_ascii [] = Inr []"
proof -
  let ?g = "\<lambda>x::real. if x = 4.5 then asc ''4.5'' else []"
  have n: "normalize_rating (float_of_token exact) ?g v =
           Inr (if strip v = [] then []
                else case float_of_token exact (strip v) of Inl e \<Rightarrow> [] | Inr x \<Rightarrow> ?g x)
       \<and> normalize_review_count int_of_ascii v =
           Inr (if strip v = [] then []
                else case int_of_ascii (strip v) of Inl e \<Rightarrow> [] | Inr n \<Rightarrow> str_of_int n)" for v
    by (rule normalizers_recover [OF float_of_token_error int_of_ascii_cases])
  have s1: "strip (asc '' 4.50 '') = asc ''4.50''" "strip (asc ''n/a'') = asc ''n/a''"
    "strip (asc ''   '') = []" "strip (asc '' 0042 '') = asc ''0042''"
    "strip (asc ''4.2'') = asc ''4.2''" "strip [] = []"
    by (simp_all add: strip_def asc_def is_space_def)
  have f1: "float_of_token exact (asc ''4.50'') = Inr 4.5"
    "float_of_token exact (asc ''n/a'') = Inl ValueError"
    by (simp_all add: asc_def float_of_token_def signed_decimal_def unsigned_decimal_def
        is_digit_def digits_val_def exact_def)
  have i1: "int_of_ascii (asc ''0042'') = Inr 42" "int_of_ascii (asc ''4.2'') = Inl ValueError"
    by (simp_all add: asc_def int_of_ascii_def is_digit_def digits_val_def)
  have d: "str_of_int 42 = asc ''42''"
    by (simp add: str_of_int_def asc_def)
  have ne: "asc ''4.50'' \<noteq> []" "asc ''n/a'' \<noteq> []" "asc ''0042'' \<noteq> []" "asc ''4.2'' \<noteq> []"
    by (simp_all add: asc_def)
  from n [of "asc '' 4.50 ''"] n [of "asc ''n/a''"] n [of "asc ''   ''"]
    n [of "asc '' 0042 ''"] n [of "asc ''4.2''"] n [of "[]"]
  show ?thesis
    by (simp add: s1 f1 i1 d ne)
qed

end
